theory Spec2Isabelle
  imports Complex_Main "HOL-Library.Log_Nat"
begin

section \<open>JavaScript numbers\<close>

text \<open>
  A JavaScript number is an IEEE 754 binary64 value. \<open>Fin x\<close> is the finite double whose
  value is the real \<open>x\<close> (the two zeros are not told apart: nothing modelled here does);
  NaN is left out, since \<open>JSON.parse\<close> never yields it and none of the operations below
  produces it from what they are given. A JSON literal beyond the range, \<open>1e400\<close>, parses
  to \<open>PosInf\<close>.
\<close>

datatype jsnum = Fin real | PosInf | NegInf

text \<open>Rounding to the nearest integer, a tie going to the even one.\<close>

definition rne :: "real \<Rightarrow> int" where
  "rne x =
     (let n = \<lfloor>x\<rfloor>; d = x - of_int n
      in if d < 1 / 2 then n else if 1 / 2 < d then n + 1 else if even n then n else n + 1)"

text \<open>
  Every finite double is an integer multiple of \<open>2 ^ - 1074\<close> and lies below \<open>2 ^ 1024\<close>.
  In units of \<open>2 ^ - 1074\<close>, the doubles around a value whose integer part has \<open>b\<close> bits are
  \<open>2 ^ (b - 53)\<close> apart (one unit apart when \<open>b \<le> 53\<close>): a significand of 53 bits.
  \<open>nearest x\<close> rounds \<open>x\<close> to that grid, ties to even; \<open>to_double\<close> is the result of an
  arithmetic operation whose exact value is \<open>x\<close>, an infinity when the rounded value leaves
  the range.
\<close>

definition emin :: nat where
  "emin = 1074"

definition emax :: nat where
  "emax = 1024"

definition shift :: "real \<Rightarrow> nat" where
  "shift x = nat (bitlen \<lfloor>\<bar>x\<bar> * 2 ^ emin\<rfloor> - 53)"

definition nearest :: "real \<Rightarrow> real" where
  "nearest x = of_int (rne (x * 2 ^ emin / 2 ^ shift x) * 2 ^ shift x) / 2 ^ emin"

definition to_double :: "real \<Rightarrow> jsnum" where
  "to_double x =
     (let y = nearest x
      in if 2 ^ emax \<le> y then PosInf else if y \<le> - (2 ^ emax) then NegInf else Fin y)"

text \<open>The reals that are values of doubles.\<close>

definition is_double :: "real \<Rightarrow> bool" where
  "is_double x \<longleftrightarrow> to_double x = Fin x"

text \<open>\<open>a * b\<close> for finite \<open>a\<close> and \<open>b\<close>; \<open>a + y\<close> for a finite \<open>a\<close>.\<close>

definition js_mul :: "real \<Rightarrow> real \<Rightarrow> jsnum" where
  "js_mul a b = to_double (a * b)"

fun js_add :: "real \<Rightarrow> jsnum \<Rightarrow> jsnum" where
  "js_add a (Fin b) = to_double (a + b)"
| "js_add a PosInf = PosInf"
| "js_add a NegInf = NegInf"

text \<open>\<open>Math.floor(y)\<close>, exact on every double, and \<open>Math.max(x, y)\<close>.\<close>

fun js_floor :: "jsnum \<Rightarrow> jsnum" where
  "js_floor (Fin x) = Fin (of_int \<lfloor>x\<rfloor>)"
| "js_floor PosInf = PosInf"
| "js_floor NegInf = NegInf"

fun js_max :: "jsnum \<Rightarrow> jsnum \<Rightarrow> jsnum" where
  "js_max PosInf y = PosInf"
| "js_max (Fin a) PosInf = PosInf"
| "js_max NegInf y = y"
| "js_max (Fin a) NegInf = Fin a"
| "js_max (Fin a) (Fin b) = Fin (max a b)"


section \<open>JavaScript values of a request body\<close>

text \<open>
  A field of a JSON request body, as \<open>express.json()\<close> hands it to a handler; arrays and
  objects are not modelled, no claim sends one. \<open>truthy\<close> is JavaScript's ToBoolean, the
  test behind \<open>!x\<close>, \<open>!!x\<close> and \<open>x || y\<close>.
\<close>

datatype jsval = JUndefined | JNull | JBool bool | JNum jsnum | JStr string

fun truthy :: "jsval \<Rightarrow> bool" where
  "truthy JUndefined = False"
| "truthy JNull = False"
| "truthy (JBool b) = b"
| "truthy (JNum x) = (x \<noteq> Fin 0)"
| "truthy (JStr s) = (s \<noteq> [])"

text \<open>\<open>v || null\<close>\<close>

definition or_null :: "jsval \<Rightarrow> jsval" where
  "or_null v = (if truthy v then v else JNull)"

text \<open>
  \<open>'' + n\<close> for a number \<open>n\<close> that \<open>Math.floor\<close> returned: the decimal digits of a whole
  number (below \<open>10 ^ 21\<close>, where JavaScript turns to the exponent notation) or the name of
  the infinity.
\<close>

definition digit_char :: "nat \<Rightarrow> char" where
  "digit_char d = ''0123456789'' ! d"

fun string_of_nat :: "nat \<Rightarrow> string" where
  "string_of_nat n =
     (if n < 10 then [digit_char n] else string_of_nat (n div 10) @ [digit_char (n mod 10)])"

declare string_of_nat.simps [simp del]

definition string_of_integer :: "int \<Rightarrow> string" where
  "string_of_integer i =
     (if i < 0 then CHR ''-'' # string_of_nat (nat (- i)) else string_of_nat (nat i))"

fun js_to_string :: "jsnum \<Rightarrow> string" where
  "js_to_string (Fin x) = string_of_integer \<lfloor>x\<rfloor>"
| "js_to_string PosInf = ''Infinity''"
| "js_to_string NegInf = ''-Infinity''"

section \<open>The database\<close>

text \<open>
  One record per table of \<open>server.js\<close>, a table being the list of its rows in insertion
  order. The \<open>created_at\<close> columns, filled by the database's default and read by no handler
  modelled here, are left out. A column keeps the JavaScript value bound to it: the
  conversions SQLite makes for a column's type affinity are not modelled (an infinite
  \<open>duration_min\<close> stays the REAL it is bound as).
\<close>

record user_row =
  u_id :: int
  first_name :: string
  last_name :: string
  u_phone :: string
  u_role :: string

record contact_row =
  c_id :: int
  c_user_id :: int
  contact_user_id :: int

record message_row =
  m_id :: int
  from_user_id :: int
  to_user_id :: int
  is_group :: int
  content :: jsval

record exercise_row =
  e_id :: int
  e_user_id :: int
  e_date :: string
  exercise_type :: jsval
  duration_min :: jsnum
  fatigue_level :: jsval
  difficulty :: jsval

record settings_row =
  s_user_id :: int
  elderly_notify_exercise :: int
  elderly_notify_checkup :: int
  family_notify_parent_done :: int

record otp_row =
  o_phone :: string
  o_code :: string
  expires_at :: int

text \<open>
  The statements a handler issues. A request runs with the set of its statements that fail
  for a reason outside the data (the \<open>err\<close> argument of a callback); constraint failures are
  computed from the tables.
\<close>

datatype db_call =
    SelectUserByPhone
  | InsertUser
  | UpdateUser
  | InsertSettings int
  | ReplaceOtp
  | SelectOtp
  | DeleteOtp
  | SelectContacts
  | InsertContact int int
  | InsertMessage int
  | InsertExercise
  | SelectSettings
  | SelectFamilyContacts

type_synonym faults = "db_call set"

section \<open>The realtime layer\<close>

text \<open>An entry of \<open>onlineUsers\<close>: \<open>{ socketId, role }\<close>.\<close>

record presence =
  socketId :: string
  p_role :: string

text \<open>A socket after the \<open>io.use\<close> middleware has set \<open>userId\<close> and \<open>userRole\<close> on it.\<close>

record socket =
  sock_id :: string
  userId :: int
  userRole :: string

datatype payload =
    MessageNew "int option" int int jsval bool
  | ExerciseCompleted int jsval jsnum jsval
  | ExerciseReminder int
  | PresenceUpdate int bool

text \<open>
  What the server hands to socket.io: \<open>io.to(socketId).emit(event, payload)\<close> or
  \<open>io.emit(event, payload)\<close>.
\<close>

datatype emission =
    ToSocket string string payload
  | ToAll string payload

section \<open>The server's state\<close>

text \<open>
  The tables with the AUTOINCREMENT counters their handlers read back through
  \<open>this.lastID\<close>, the presence map \<open>onlineUsers\<close>, the identifiers of the sockets socket.io
  holds open, and two histories the program itself does not keep: \<open>sent\<close>, the emissions
  in order, and \<open>relayCalls\<close>, the arguments of every call of \<open>emitToUser\<close> in order (a
  push that is issued, delivered or not).
\<close>

record state =
  users :: "user_row list"
  users_seq :: int
  contacts :: "contact_row list"
  contacts_seq :: int
  messages :: "message_row list"
  messages_seq :: int
  exercises :: "exercise_row list"
  exercises_seq :: int
  settings :: "settings_row list"
  otps :: "otp_row list"
  onlineUsers :: "int \<rightharpoonup> presence"
  connected :: "string set"
  sent :: "emission list"
  relayCalls :: "(int \<times> string \<times> payload) list"

text \<open>\<open>io.on('connection', ...)\<close>\<close>

definition on_connection :: "state \<Rightarrow> socket \<Rightarrow> state" where
  "on_connection st s =
     st\<lparr>connected := insert (sock_id s) (connected st),
        onlineUsers := (onlineUsers st)(userId s \<mapsto> \<lparr>socketId = sock_id s, p_role = userRole s\<rparr>),
        sent := sent st @ [ToAll ''presence:update'' (PresenceUpdate (userId s) True)]\<rparr>"

text \<open>\<open>socket.on('disconnect', ...)\<close>, after socket.io has dropped the socket.\<close>

definition on_disconnect :: "state \<Rightarrow> socket \<Rightarrow> state" where
  "on_disconnect st s =
     st\<lparr>connected := connected st - {sock_id s},
        onlineUsers := (onlineUsers st)(userId s := None),
        sent := sent st @ [ToAll ''presence:update'' (PresenceUpdate (userId s) False)]\<rparr>"

text \<open>\<open>emitToUser(userId, event, payload)\<close>\<close>

definition emitToUser :: "state \<Rightarrow> int \<Rightarrow> string \<Rightarrow> payload \<Rightarrow> state" where
  "emitToUser st uid event p =
     (let st' = st\<lparr>relayCalls := relayCalls st @ [(uid, event, p)]\<rparr>
      in case onlineUsers st uid of
           None \<Rightarrow> st'
         | Some target \<Rightarrow> st'\<lparr>sent := sent st' @ [ToSocket (socketId target) event p]\<rparr>)"

section \<open>Sessions and responses\<close>

text \<open>\<open>req.session.user\<close>, as \<open>rowToUser\<close> builds it.\<close>

record session_user =
  su_id :: int
  firstName :: string
  lastName :: string
  su_phone :: string
  su_role :: string

type_synonym session = "session_user option"

definition rowToUser :: "user_row option \<Rightarrow> session_user option" where
  "rowToUser row =
     (case row of
        None \<Rightarrow> None
      | Some r \<Rightarrow> Some \<lparr>su_id = u_id r, firstName = first_name r, lastName = last_name r,
                        su_phone = u_phone r, su_role = u_role r\<rparr>)"

text \<open>
  A response: \<open>res.status(code).json({ error })\<close>, or \<open>res.json\<close> of \<open>{ ok: true }\<close> with
  the fields the handler adds.
\<close>

datatype response =
    Error nat string
  | Json_ok
  | Json_ok_id int
  | Json_ok_user session_user
  | Json_ok_devCode "string option"

section \<open>Handlers\<close>

definition user_exists :: "state \<Rightarrow> int \<Rightarrow> bool" where
  "user_exists st i = (i \<in> set (map u_id (users st)))"

text \<open>
  \<open>ensureSettings\<close>: INSERT OR IGNORE with no callback, so a failure (a fault, or the foreign
  key on \<open>user_id\<close>) passes unnoticed.
\<close>

definition ensureSettings :: "state \<Rightarrow> faults \<Rightarrow> int \<Rightarrow> state" where
  "ensureSettings st F uid =
     (if InsertSettings uid \<in> F \<or> uid \<in> set (map s_user_id (settings st))
         \<or> \<not> user_exists st uid
      then st
      else st\<lparr>settings := settings st @
             [\<lparr>s_user_id = uid, elderly_notify_exercise = 1, elderly_notify_checkup = 1,
               family_notify_parent_done = 1\<rparr>]\<rparr>)"

text \<open>
  \<open>generateAndStoreOtp\<close>, at time \<open>now\<close> (\<open>Date.now()\<close>, milliseconds) and with \<open>r\<close> the value
  \<open>Math.random()\<close> returned, a double; the product and the sum are rounded as JavaScript
  rounds them. The callback gets the code whether or not the store succeeded.
\<close>

definition generateAndStoreOtp :: "state \<Rightarrow> faults \<Rightarrow> int \<Rightarrow> real \<Rightarrow> string \<Rightarrow> string \<times> state" where
  "generateAndStoreOtp st F now r phone =
     (let code = js_to_string (js_floor (js_add 100000 (js_mul r 900000)));
          expires = now + 1000 * 60 * 5
      in (code,
          if ReplaceOtp \<in> F then st
          else st\<lparr>otps := filter (\<lambda>x. o_phone x \<noteq> phone) (otps st) @
                   [\<lparr>o_phone = phone, o_code = code, expires_at = expires\<rparr>]\<rparr>))"

text \<open>
  POST /api/auth/request-otp, for a body whose \<open>firstName\<close>, \<open>lastName\<close> and \<open>phone\<close> are
  strings; \<open>production\<close> is \<open>NODE_ENV === 'production'\<close>.
\<close>

definition request_otp ::
  "state \<Rightarrow> faults \<Rightarrow> bool \<Rightarrow> int \<Rightarrow> real \<Rightarrow> string \<Rightarrow> string \<Rightarrow> string \<Rightarrow> jsval \<Rightarrow> response \<times> state" where
  "request_otp st F production now r fName lName phone role =
     (if fName = [] \<or> lName = [] \<or> phone = [] then (Error 400 ''missing_fields'', st)
      else
        let roleValue = (if role = JStr ''elderly'' then ''elderly''
                         else if role = JStr ''family'' then ''family'' else ''elderly'')
        in if SelectUserByPhone \<in> F then (Error 500 ''db_error'', st)
           else
             (case find (\<lambda>u. u_phone u = phone) (users st) of
                None \<Rightarrow>
                  if InsertUser \<in> F then (Error 500 ''db_insert_error'', st)
                  else
                    let lastID = users_seq st + 1;
                        st1 = st\<lparr>users := users st @
                                  [\<lparr>u_id = lastID, first_name = fName, last_name = lName,
                                    u_phone = phone, u_role = roleValue\<rparr>],
                                users_seq := lastID\<rparr>;
                        st2 = ensureSettings st1 F lastID;
                        (code, st3) = generateAndStoreOtp st2 F now r phone
                    in (Json_ok_devCode (if production then None else Some code), st3)
              | Some row \<Rightarrow>
                  if UpdateUser \<in> F then (Error 500 ''db_update_error'', st)
                  else
                    let st1 = st\<lparr>users := map (\<lambda>u. if u_id u = u_id row
                                                   then u\<lparr>first_name := fName, last_name := lName,
                                                          u_role := roleValue\<rparr>
                                                   else u) (users st)\<rparr>;
                        st2 = ensureSettings st1 F (u_id row);
                        (code, st3) = generateAndStoreOtp st2 F now r phone
                    in (Json_ok_devCode (if production then None else Some code), st3)))"

text \<open>
  POST /api/auth/verify-otp at time \<open>now\<close>, for a body whose \<open>phone\<close> is a string; \<open>code\<close>
  is any value, compared with \<open>!==\<close>. The result is the response, the request's session
  afterwards and the state. The DELETE has no callback.
\<close>

definition verify_otp ::
  "state \<Rightarrow> session \<Rightarrow> faults \<Rightarrow> int \<Rightarrow> string \<Rightarrow> jsval \<Rightarrow> response \<times> session \<times> state" where
  "verify_otp st sess F now phone code =
     (if phone = [] \<or> \<not> truthy code then (Error 400 ''missing_fields'', sess, st)
      else if SelectOtp \<in> F then (Error 500 ''db_error'', sess, st)
      else
        (case find (\<lambda>x. o_phone x = phone) (otps st) of
           None \<Rightarrow> (Error 400 ''otp_not_found'', sess, st)
         | Some row \<Rightarrow>
             if JStr (o_code row) \<noteq> code then (Error 400 ''otp_invalid'', sess, st)
             else if expires_at row < now then (Error 400 ''otp_expired'', sess, st)
             else if SelectUserByPhone \<in> F then (Error 500 ''user_not_found'', sess, st)
             else
               (case rowToUser (find (\<lambda>u. u_phone u = phone) (users st)) of
                  None \<Rightarrow> (Error 500 ''user_not_found'', sess, st)
                | Some user \<Rightarrow>
                    (Json_ok_user user, Some user,
                     if DeleteOtp \<in> F then st
                     else st\<lparr>otps := filter (\<lambda>x. o_phone x \<noteq> phone) (otps st)\<rparr>))))"

text \<open>
  INSERT OR IGNORE INTO contacts: \<open>None\<close> is the error handed to the callback. A row that
  meets UNIQUE(user_id, contact_user_id) is skipped, yet SQLite has by then drawn its
  identifier, so the AUTOINCREMENT counter advances all the same; a row that is inserted must
  satisfy both foreign keys (\<open>PRAGMA foreign_keys = ON\<close>), and a statement that fails leaves
  the counter alone.
\<close>

definition insert_or_ignore_contact :: "state \<Rightarrow> faults \<Rightarrow> int \<Rightarrow> int \<Rightarrow> state option" where
  "insert_or_ignore_contact st F a b =
     (if InsertContact a b \<in> F then None
      else if (a, b) \<in> set (map (\<lambda>c. (c_user_id c, contact_user_id c)) (contacts st))
        then Some (st\<lparr>contacts_seq := contacts_seq st + 1\<rparr>)
      else if \<not> user_exists st a \<or> \<not> user_exists st b then None
      else Some (st\<lparr>contacts := contacts st @
                      [\<lparr>c_id = contacts_seq st + 1, c_user_id = a, contact_user_id = b\<rparr>],
                    contacts_seq := contacts_seq st + 1\<rparr>))"

text \<open>POST /api/contacts/add, for a body whose \<open>phone\<close> is a string.\<close>

definition contacts_add :: "state \<Rightarrow> session \<Rightarrow> faults \<Rightarrow> string \<Rightarrow> response \<times> state" where
  "contacts_add st sess F phone =
     (case sess of
        None \<Rightarrow> (Error 401 ''unauthorized'', st)
      | Some user \<Rightarrow>
          if phone = [] then (Error 400 ''missing_phone'', st)
          else if SelectUserByPhone \<in> F then (Error 500 ''db_error'', st)
          else
            (case find (\<lambda>u. u_phone u = phone) (users st) of
               None \<Rightarrow> (Error 404 ''user_not_found'', st)
             | Some row \<Rightarrow>
                 if u_id row = su_id user then (Error 400 ''cannot_add_self'', st)
                 else
                   let st1 = ensureSettings st F (su_id user);
                       st2 = ensureSettings st1 F (u_id row)
                   in (case insert_or_ignore_contact st2 F (su_id user) (u_id row) of
                         None \<Rightarrow> (Error 500 ''db_error'', st2)
                       | Some st3 \<Rightarrow>
                           (case insert_or_ignore_contact st3 F (u_id row) (su_id user) of
                              None \<Rightarrow> (Error 500 ''db_error'', st3)
                            | Some st4 \<Rightarrow> (Json_ok, st4)))))"

text \<open>
  The rows of contacts with a given \<open>user_id\<close>, in the order the two SELECTs below get
  them. Neither has an ORDER BY, so SQL promises no order; SQLite answers both from the index
  of UNIQUE(user_id, contact_user_id), which lists the rows of one user by ascending
  \<open>contact_user_id\<close> (rows that agree there, which the constraint excludes, by rowid).
\<close>

definition contacts_of :: "state \<Rightarrow> int \<Rightarrow> contact_row list" where
  "contacts_of st uid = sort_key contact_user_id (filter (\<lambda>c. c_user_id c = uid) (contacts st))"

text \<open>
  INSERT INTO messages: \<open>None\<close> is the error, a fault or a foreign key that fails.
\<close>

definition insert_message :: "state \<Rightarrow> faults \<Rightarrow> int \<Rightarrow> int \<Rightarrow> int \<Rightarrow> jsval \<Rightarrow> state option" where
  "insert_message st F sender rcpt grp txt =
     (if InsertMessage rcpt \<in> F \<or> \<not> user_exists st sender \<or> \<not> user_exists st rcpt then None
      else Some (st\<lparr>messages := messages st @
                      [\<lparr>m_id = messages_seq st + 1, from_user_id = sender, to_user_id = rcpt,
                        is_group = grp, content = txt\<rparr>],
                    messages_seq := messages_seq st + 1\<rparr>))"

text \<open>\<open>stmt.run([fromUserId, rid, content])\<close> of the group branch: no callback, an error is dropped.\<close>

definition stmt_run :: "faults \<Rightarrow> int \<Rightarrow> jsval \<Rightarrow> state \<Rightarrow> int \<Rightarrow> state" where
  "stmt_run F sender txt st rid =
     (case insert_message st F sender rid 1 txt of None \<Rightarrow> st | Some st' \<Rightarrow> st')"

text \<open>
  POST /api/messages. \<open>toUserId\<close> is absent or an integer; \<open>content\<close> and \<open>isGroup\<close> are any
  values.
\<close>

definition post_messages ::
  "state \<Rightarrow> session \<Rightarrow> faults \<Rightarrow> int option \<Rightarrow> jsval \<Rightarrow> jsval \<Rightarrow> response \<times> state" where
  "post_messages st sess F toUserId txt isGroup =
     (case sess of
        None \<Rightarrow> (Error 401 ''unauthorized'', st)
      | Some user \<Rightarrow>
          let fromUserId = su_id user in
          if \<not> truthy txt then (Error 400 ''missing_content'', st)
          else if truthy isGroup then
            (if SelectContacts \<in> F then (Error 500 ''db_error'', st)
             else
               let recipients = map contact_user_id (contacts_of st fromUserId);
                   st1 = foldl (stmt_run F fromUserId txt) st recipients;
                   st2 = foldl (\<lambda>s rid. emitToUser s rid ''message:new''
                                  (MessageNew None fromUserId rid txt True)) st1 recipients
               in (Json_ok, st2))
          else
            (case toUserId of
               None \<Rightarrow> (Error 400 ''missing_toUserId'', st)
             | Some t \<Rightarrow>
                 if t = 0 then (Error 400 ''missing_toUserId'', st)
                 else
                   (case insert_message st F fromUserId t 0 txt of
                      None \<Rightarrow> (Error 500 ''db_error'', st)
                    | Some st1 \<Rightarrow>
                        (Json_ok_id (messages_seq st1),
                         emitToUser st1 t ''message:new''
                           (MessageNew (Some (messages_seq st1)) fromUserId t txt False)))))"

text \<open>
  The query of \<open>notifyFamilyOfExercise\<close>: contacts joined with users on
  \<open>u.id = c.contact_user_id\<close>, where \<open>c.user_id = ?\<close> and \<open>u.role = 'family'\<close>.
\<close>

definition family_contacts :: "state \<Rightarrow> int \<Rightarrow> int list" where
  "family_contacts st elderlyId =
     [u_id u. c \<leftarrow> contacts_of st elderlyId,
              u \<leftarrow> users st, u_id u = contact_user_id c \<and> u_role u = ''family'']"

text \<open>
  \<open>notifyFamilyOfExercise(elderlyId, { exerciseType, duration, fatigueLevel })\<close>
\<close>

definition notifyFamilyOfExercise :: "state \<Rightarrow> faults \<Rightarrow> int \<Rightarrow> jsval \<Rightarrow> jsnum \<Rightarrow> jsval \<Rightarrow> state" where
  "notifyFamilyOfExercise st F elderlyId exerciseType duration fatigueLevel =
     (if SelectFamilyContacts \<in> F then st
      else foldl (\<lambda>s rid. emitToUser s rid ''exercise:completed''
                    (ExerciseCompleted elderlyId exerciseType duration fatigueLevel))
             st (family_contacts st elderlyId))"

text \<open>
  POST /api/exercise on the day \<open>today\<close> (\<open>new Date().toISOString().split('T')[0]\<close>).
\<close>

definition post_exercise ::
  "state \<Rightarrow> session \<Rightarrow> faults \<Rightarrow> string \<Rightarrow> jsval \<Rightarrow> jsval \<Rightarrow> jsval \<Rightarrow> jsval \<Rightarrow> response \<times> state" where
  "post_exercise st sess F today exerciseType duration fatigueLevel diff =
     (case sess of
        None \<Rightarrow> (Error 401 ''unauthorized'', st)
      | Some user \<Rightarrow>
          (case duration of
             JNum d \<Rightarrow>
               if \<not> truthy exerciseType then (Error 400 ''missing_fields'', st)
               else if InsertExercise \<in> F \<or> \<not> user_exists st (su_id user)
                 then (Error 500 ''db_error'', st)
               else
                 let lastID = exercises_seq st + 1;
                     st1 = st\<lparr>exercises := exercises st @
                               [\<lparr>e_id = lastID, e_user_id = su_id user, e_date = today,
                                 exercise_type = exerciseType,
                                 duration_min = js_max (Fin 0) (js_floor d),
                                 fatigue_level = or_null fatigueLevel,
                                 difficulty = or_null diff\<rparr>],
                             exercises_seq := lastID\<rparr>;
                     st2 = (if su_role user = ''elderly'' then
                              (if SelectSettings \<in> F then st1
                               else
                                 (case find (\<lambda>s. s_user_id s = su_id user) (settings st1) of
                                    None \<Rightarrow> st1
                                  | Some sRow \<Rightarrow>
                                      if family_notify_parent_done sRow = 1
                                      then notifyFamilyOfExercise st1 F (su_id user) exerciseType
                                             (js_floor d) (or_null fatigueLevel)
                                      else st1))
                            else st1)
                 in (Json_ok_id lastID, st2)
           | _ \<Rightarrow> (Error 400 ''missing_fields'', st)))"

section \<open>The schema's constraints\<close>

text \<open>
  What the CREATE TABLE statements promise of every state the handlers reach: the primary key
  and the UNIQUE phone of users (identifiers never above the AUTOINCREMENT counter),
  UNIQUE(user_id, contact_user_id) and both foreign keys of contacts, the primary keys of
  settings and otps; and, a consequence of the handlers, that a stored code belongs to the
  phone of a user.
\<close>

definition schema_ok :: "state \<Rightarrow> bool" where
  "schema_ok st \<longleftrightarrow>
     distinct (map u_id (users st)) \<and>
     distinct (map u_phone (users st)) \<and>
     (\<forall>u\<in>set (users st). u_id u \<le> users_seq st) \<and>
     distinct (map (\<lambda>c. (c_user_id c, contact_user_id c)) (contacts st)) \<and>
     (\<forall>c\<in>set (contacts st). user_exists st (c_user_id c) \<and> user_exists st (contact_user_id c)) \<and>
     distinct (map s_user_id (settings st)) \<and>
     distinct (map o_phone (otps st)) \<and>
     set (map o_phone (otps st)) \<subseteq> set (map u_phone (users st))"

section \<open>Example states\<close>

text \<open>The server at start-up on a fresh database file, nobody connected.\<close>

definition initial :: state where
  "initial =
     \<lparr>users = [], users_seq = 0, contacts = [], contacts_seq = 0, messages = [],
      messages_seq = 0, exercises = [], exercises_seq = 0, settings = [], otps = [],
      onlineUsers = Map.empty, connected = {}, sent = [], relayCalls = []\<rparr>"

text \<open>
  A value of \<open>Math.random()\<close>: the double printed as 0.5000199999999999. Exact arithmetic
  would give the code 550017; the doubles give 550018, the sum falling halfway between two
  doubles and going to the even one.
\<close>

definition random_demo :: real where
  "random_demo = 2251889885677795 / 2 ^ 52"

text \<open>
  Another one, the double nearest to 1/36 (it lies below 1/36): exact arithmetic would give
  124999, the doubles give 125000, the product being rounded up to 25000.
\<close>

definition random_near_36th :: real where
  "random_near_36th = 2001599834386887 / 2 ^ 56"

text \<open>
  After the first request-otp, for the new phone 0811111111 at time 0, \<open>Math.random()\<close>
  having returned \<open>random_demo\<close>: the code is 550018.
\<close>

definition otp_issued :: state where
  "otp_issued =
     snd (request_otp initial {} False 0 random_demo ''Mali'' ''Suk'' ''0811111111''
            (JStr ''elderly''))"

text \<open>The session of that user once the code is verified.\<close>

definition mali :: session_user where
  "mali = \<lparr>su_id = 1, firstName = ''Mali'', lastName = ''Suk'', su_phone = ''0811111111'',
           su_role = ''elderly''\<rparr>"

text \<open>
  Four registered users with their settings rows and no contact yet; user 2 is connected on
  socket B.
\<close>

definition strangers :: state where
  "strangers =
     initial\<lparr>users :=
               [\<lparr>u_id = 1, first_name = ''Mali'', last_name = ''Suk'', u_phone = ''0811111111'',
                 u_role = ''elderly''\<rparr>,
                \<lparr>u_id = 2, first_name = ''Nok'', last_name = ''Suk'', u_phone = ''0822222222'',
                 u_role = ''family''\<rparr>,
                \<lparr>u_id = 3, first_name = ''Pim'', last_name = ''Suk'', u_phone = ''0833333333'',
                 u_role = ''family''\<rparr>,
                \<lparr>u_id = 4, first_name = ''Som'', last_name = ''Dee'', u_phone = ''0844444444'',
                 u_role = ''elderly''\<rparr>],
             users_seq := 4,
             settings :=
               [\<lparr>s_user_id = 1, elderly_notify_exercise = 1, elderly_notify_checkup = 1,
                 family_notify_parent_done = 1\<rparr>,
                \<lparr>s_user_id = 2, elderly_notify_exercise = 1, elderly_notify_checkup = 1,
                 family_notify_parent_done = 1\<rparr>,
                \<lparr>s_user_id = 3, elderly_notify_exercise = 1, elderly_notify_checkup = 1,
                 family_notify_parent_done = 1\<rparr>,
                \<lparr>s_user_id = 4, elderly_notify_exercise = 1, elderly_notify_checkup = 1,
                 family_notify_parent_done = 1\<rparr>],
             onlineUsers := [2 \<mapsto> \<lparr>socketId = ''B'', p_role = ''family''\<rparr>],
             connected := {''B''}\<rparr>"

text \<open>
  The same users after user 1 has added users 3, 2 and 4, in this order: three contacts, two
  of them with the family role.
\<close>

definition family_demo :: state where
  "family_demo =
     strangers\<lparr>contacts :=
                 [\<lparr>c_id = 1, c_user_id = 1, contact_user_id = 3\<rparr>,
                  \<lparr>c_id = 2, c_user_id = 3, contact_user_id = 1\<rparr>,
                  \<lparr>c_id = 3, c_user_id = 1, contact_user_id = 2\<rparr>,
                  \<lparr>c_id = 4, c_user_id = 2, contact_user_id = 1\<rparr>,
                  \<lparr>c_id = 5, c_user_id = 1, contact_user_id = 4\<rparr>,
                  \<lparr>c_id = 6, c_user_id = 4, contact_user_id = 1\<rparr>],
               contacts_seq := 6\<rparr>"

text \<open>Two sockets of user 7, as two tabs or a reconnect open them.\<close>

definition sock_a :: socket where
  "sock_a = \<lparr>sock_id = ''A'', userId = 7, userRole = ''family''\<rparr>"

definition sock_b :: socket where
  "sock_b = \<lparr>sock_id = ''B'', userId = 7, userRole = ''family''\<rparr>"

section \<open>The realtime layer: presence and relay\<close>

lemma on_connection_registers:
  "onlineUsers (on_connection st s) (userId s) = Some \<lparr>socketId = sock_id s, p_role = userRole s\<rparr>"
  by (simp add: on_connection_def)

lemma on_disconnect_unregisters: "onlineUsers (on_disconnect st s) (userId s) = None"
  by (simp add: on_disconnect_def)

text \<open>
  While neither socket has disconnected, a second connect of the same user overwrites the
  entry and a push goes to the second socket alone.
\<close>

lemma reconnect_push_goes_to_latest:
  "userId a = userId b \<Longrightarrow>
   sent (emitToUser (on_connection (on_connection st a) b) (userId b) event p) =
   sent (on_connection (on_connection st a) b) @ [ToSocket (sock_id b) event p]"
  by (simp add: emitToUser_def on_connection_def)

text \<open>
  C1: the registry holds one entry per user, a later connect of a registered user overwrites
  the handle, and from then on every push for the user reaches the latest connection, also
  after the earlier connection disconnects. The last part fails on the code: the disconnect
  handler deletes the entry by user identifier without looking at whose socket it holds. User
  7 connects on socket A, then on socket B, then A disconnects: B is still connected, the
  registry has no entry for 7, and a push for 7 is emitted to nobody.
\<close>

theorem stale_disconnect_evicts_latest_connection:
  "(let st = on_disconnect (on_connection (on_connection initial sock_a) sock_b) sock_a
    in ''B'' \<in> connected st \<and> ''A'' \<notin> connected st \<and> onlineUsers st 7 = None \<and>
       sent (emitToUser st 7 ''exercise:reminder'' (ExerciseReminder 3)) = sent st)"
  by (simp add: Let_def on_disconnect_def on_connection_def emitToUser_def initial_def
      sock_a_def sock_b_def)

text \<open>
  C3: for a user absent from the registry, \<open>emitToUser\<close> returns normally, emits nothing and
  changes nothing but the history of its own calls; a connect that follows (of that user or
  any other) behaves as if the push had never been issued, its only emission being the
  presence broadcast.
\<close>

theorem emitToUser_absent_drops:
  assumes "onlineUsers st uid = None"
  shows "emitToUser st uid event p = st\<lparr>relayCalls := relayCalls st @ [(uid, event, p)]\<rparr> \<and>
         sent (emitToUser st uid event p) = sent st \<and>
         on_connection (emitToUser st uid event p) s =
           (on_connection st s)\<lparr>relayCalls := relayCalls st @ [(uid, event, p)]\<rparr> \<and>
         sent (on_connection (emitToUser st uid event p) s) =
           sent st @ [ToAll ''presence:update'' (PresenceUpdate (userId s) True)]"
  using assms by (simp add: emitToUser_def on_connection_def)

theorem emitToUser_absent_drops_witness:
  "onlineUsers initial 7 = None \<and>
   sent (emitToUser initial 7 ''message:new'' (MessageNew (Some 1) 3 7 (JStr ''hello'') False)) = [] \<and>
   sent (on_connection
           (emitToUser initial 7 ''message:new'' (MessageNew (Some 1) 3 7 (JStr ''hello'') False))
           sock_a) =
     [ToAll ''presence:update'' (PresenceUpdate 7 True)]"
  using emitToUser_absent_drops
    [of initial 7 "''message:new''" "MessageNew (Some 1) 3 7 (JStr ''hello'') False" sock_a]
  by (simp add: initial_def sock_a_def emitToUser_def on_connection_def)

section \<open>Rounding to doubles\<close>

lemma rne_le: "x < of_int k + 1 / 2 \<Longrightarrow> rne x \<le> k"
  unfolding rne_def Let_def by (auto; linarith)

lemma rne_ge: "of_int k - 1 / 2 < x \<Longrightarrow> k \<le> rne x"
  unfolding rne_def Let_def by (auto; linarith)

lemma rne_eq: "of_int k - 1 / 2 < x \<Longrightarrow> x < of_int k + 1 / 2 \<Longrightarrow> rne x = k"
  by (rule antisym [OF rne_le rne_ge])

lemma rne_of_int: "rne (of_int k) = k"
  by (rule rne_eq) simp_all

lemma rne_mono: "x \<le> y \<Longrightarrow> rne x \<le> rne y"
proof -
  assume le: "x \<le> y"
  have "rne x \<le> \<lfloor>x\<rfloor> + 1" "\<lfloor>y\<rfloor> \<le> rne y"
    unfolding rne_def Let_def by auto
  show ?thesis
  proof (cases "\<lfloor>x\<rfloor> < \<lfloor>y\<rfloor>")
    case True
    with \<open>rne x \<le> \<lfloor>x\<rfloor> + 1\<close> \<open>\<lfloor>y\<rfloor> \<le> rne y\<close> show ?thesis by linarith
  next
    case False
    with le have eq: "\<lfloor>x\<rfloor> = \<lfloor>y\<rfloor>" by (simp add: floor_mono order_antisym)
    with le show ?thesis
      unfolding rne_def Let_def by auto
  qed
qed

lemma emin_ge: "52 \<le> emin"
  by (simp add: emin_def)

lemma shift_eq:
  fixes j :: nat
  assumes "2 ^ (j + 52) \<le> \<bar>x\<bar> * 2 ^ emin" and "\<bar>x\<bar> * 2 ^ emin < 2 ^ (j + 53)"
  shows "shift x = j"
proof -
  let ?n = "\<lfloor>\<bar>x\<bar> * 2 ^ emin\<rfloor>"
  have "(of_int (2 ^ (j + 52)) :: real) \<le> \<bar>x\<bar> * 2 ^ emin" using assms(1) by simp
  then have lo: "2 ^ (j + 52) \<le> ?n" by (simp only: le_floor_iff)
  have "\<bar>x\<bar> * 2 ^ emin < (of_int (2 ^ (j + 53)) :: real)" using assms(2) by simp
  then have hi: "?n < 2 ^ (j + 53)" by (simp only: floor_less_iff)
  have n1: "nat (int (j + 53)) = j + 53" and n2: "nat (int (j + 53)) - 1 = j + 52"
    by simp_all
  have "bitlen ?n \<le> int (j + 53)"
    unfolding bitlen_le_iff_power n1 using hi by simp
  moreover have "int (j + 53) \<le> bitlen ?n"
    unfolding bitlen_ge_iff_power n2 using lo by simp
  ultimately have "bitlen ?n = int (j + 53)" by simp
  then show ?thesis by (simp add: shift_def)
qed

lemma nearest_binade:
  fixes e :: nat
  assumes "e \<le> 52" and "2 ^ e \<le> x" and "x < 2 ^ (e + 1)"
  shows "nearest x = of_int (rne (x * 2 ^ (52 - e))) / 2 ^ (52 - e)"
proof -
  let ?j = "e + (emin - 52)"
  have pos: "0 \<le> x" using assms(2) by (smt (verit) zero_le_power)
  have split: "(2::real) ^ emin = 2 ^ (52 - e) * 2 ^ ?j"
    using assms(1) emin_ge by (simp add: power_add [symmetric])
  have lo: "(2::real) ^ (?j + 52) = 2 ^ e * 2 ^ emin"
    using emin_ge by (simp add: power_add [symmetric])
  have hi: "(2::real) ^ (?j + 53) = 2 ^ (e + 1) * 2 ^ emin"
    using emin_ge by (simp add: power_add [symmetric])
  have "shift x = ?j"
  proof (rule shift_eq)
    show "2 ^ (?j + 52) \<le> \<bar>x\<bar> * 2 ^ emin"
      unfolding lo using assms(2) pos by simp
    show "\<bar>x\<bar> * 2 ^ emin < 2 ^ (?j + 53)"
      unfolding hi using assms(3) pos by simp
  qed
  then have "nearest x = of_int (rne (x * 2 ^ emin / 2 ^ ?j) * 2 ^ ?j) / 2 ^ emin"
    by (simp add: nearest_def)
  also have "x * 2 ^ emin / 2 ^ ?j = x * 2 ^ (52 - e)"
    unfolding split by simp
  also have "of_int (rne (x * 2 ^ (52 - e)) * 2 ^ ?j) / (2::real) ^ emin =
             of_int (rne (x * 2 ^ (52 - e))) / 2 ^ (52 - e)"
    unfolding split by simp
  finally show ?thesis .
qed

lemma rne_le_int: "x \<le> of_int k \<Longrightarrow> rne x \<le> k"
  by (rule rne_le) linarith

lemma rne_ge_int: "of_int k \<le> x \<Longrightarrow> k \<le> rne x"
  by (rule rne_ge) linarith

lemma shift_upper:
  assumes "0 \<le> x"
  shows "x * 2 ^ emin < 2 ^ (shift x + 53)"
proof -
  let ?n = "\<lfloor>\<bar>x\<bar> * 2 ^ emin\<rfloor>"
  have "bitlen ?n \<le> int (shift x + 53)"
    by (simp add: shift_def)
  then have "?n < 2 ^ nat (int (shift x + 53))"
    unfolding bitlen_le_iff_power by simp
  then have "?n < 2 ^ (shift x + 53)" by (simp add: nat_add_distrib)
  then have "\<bar>x\<bar> * 2 ^ emin < of_int (2 ^ (shift x + 53))"
    by (simp only: floor_less_iff)
  with assms show ?thesis by simp
qed

lemma shift_lower:
  assumes "0 \<le> x" and "1 \<le> shift x"
  shows "2 ^ (shift x + 52) \<le> x * 2 ^ emin"
proof -
  let ?n = "\<lfloor>\<bar>x\<bar> * 2 ^ emin\<rfloor>"
  define b where "b = bitlen ?n"
  have "shift x = nat (b - 53)" by (simp add: shift_def b_def)
  with assms(2) have "int (shift x + 53) \<le> b" by linarith
  then have "int (shift x + 53) \<le> bitlen ?n" by (simp only: b_def)
  moreover have "nat (int (shift x + 53)) - 1 = shift x + 52" by (simp add: nat_add_distrib)
  ultimately have "2 ^ (shift x + 52) \<le> ?n"
    unfolding bitlen_ge_iff_power by (simp add: nat_add_distrib add.commute)
  then have "of_int (2 ^ (shift x + 52)) \<le> \<bar>x\<bar> * 2 ^ emin"
    by (simp only: le_floor_iff)
  with assms(1) show ?thesis by simp
qed

lemma shift_mono:
  assumes "0 \<le> x" and "x \<le> y"
  shows "shift x \<le> shift y"
proof -
  have "\<bar>x\<bar> * 2 ^ emin \<le> \<bar>y\<bar> * 2 ^ emin" using assms by simp
  then have "\<lfloor>\<bar>x\<bar> * 2 ^ emin\<rfloor> \<le> \<lfloor>\<bar>y\<bar> * 2 ^ emin\<rfloor>" by (rule floor_mono)
  then have "bitlen \<lfloor>\<bar>x\<bar> * 2 ^ emin\<rfloor> \<le> bitlen \<lfloor>\<bar>y\<bar> * 2 ^ emin\<rfloor>"
    by (simp add: bitlen_def floorlog_mono)
  then show ?thesis by (simp add: shift_def)
qed

text \<open>The rounded value in units of \<open>2 ^ - emin\<close>.\<close>

lemma rounded_upper:
  assumes "0 \<le> x"
  shows "rne (x * 2 ^ emin / 2 ^ shift x) * 2 ^ shift x \<le> 2 ^ (shift x + 53)"
proof -
  have "x * 2 ^ emin / 2 ^ shift x < 2 ^ 53"
    using shift_upper [OF assms] by (simp add: power_add field_simps)
  then have "x * 2 ^ emin / 2 ^ shift x \<le> of_int (2 ^ 53)" by simp
  then have "rne (x * 2 ^ emin / 2 ^ shift x) \<le> 2 ^ 53" by (rule rne_le_int)
  then have "rne (x * 2 ^ emin / 2 ^ shift x) * 2 ^ shift x \<le> 2 ^ 53 * 2 ^ shift x"
    by (rule mult_right_mono) simp
  then show ?thesis by (simp add: power_add mult.commute)
qed

lemma rounded_lower:
  assumes "0 \<le> x" and "1 \<le> shift x"
  shows "2 ^ (shift x + 52) \<le> rne (x * 2 ^ emin / 2 ^ shift x) * 2 ^ shift x"
proof -
  have "2 ^ 52 \<le> x * 2 ^ emin / 2 ^ shift x"
    using shift_lower [OF assms] by (simp add: power_add field_simps)
  then have "of_int (2 ^ 52) \<le> x * 2 ^ emin / 2 ^ shift x" by simp
  then have "2 ^ 52 \<le> rne (x * 2 ^ emin / 2 ^ shift x)" by (rule rne_ge_int)
  then have "2 ^ 52 * 2 ^ shift x \<le> rne (x * 2 ^ emin / 2 ^ shift x) * 2 ^ shift x"
    by (rule mult_right_mono) simp
  then show ?thesis by (simp add: power_add mult.commute)
qed

lemma nearest_mono:
  assumes "0 \<le> x" and "x \<le> y"
  shows "nearest x \<le> nearest y"
proof -
  have y: "0 \<le> y" using assms by simp
  have "rne (x * 2 ^ emin / 2 ^ shift x) * 2 ^ shift x \<le> rne (y * 2 ^ emin / 2 ^ shift y) * 2 ^ shift y"
  proof (cases "shift x = shift y")
    case True
    have "x * 2 ^ emin / 2 ^ shift y \<le> y * 2 ^ emin / 2 ^ shift y"
      using assms(2) by (simp add: divide_right_mono)
    then have "rne (x * 2 ^ emin / 2 ^ shift y) \<le> rne (y * 2 ^ emin / 2 ^ shift y)"
      by (rule rne_mono)
    then show ?thesis
      unfolding True by (rule mult_right_mono) simp
  next
    case False
    with shift_mono [OF assms] have lt: "shift x < shift y" by simp
    then have "1 \<le> shift y" by simp
    have "rne (x * 2 ^ emin / 2 ^ shift x) * 2 ^ shift x \<le> 2 ^ (shift x + 53)"
      using assms(1) by (rule rounded_upper)
    also have "(2::int) ^ (shift x + 53) \<le> 2 ^ (shift y + 52)"
      using lt by (intro power_increasing) simp_all
    also have "\<dots> \<le> rne (y * 2 ^ emin / 2 ^ shift y) * 2 ^ shift y"
      using y \<open>1 \<le> shift y\<close> by (rule rounded_lower)
    finally show ?thesis .
  qed
  then have "(of_int (rne (x * 2 ^ emin / 2 ^ shift x) * 2 ^ shift x) :: real)
             \<le> of_int (rne (y * 2 ^ emin / 2 ^ shift y) * 2 ^ shift y)"
    by (simp only: of_int_le_iff)
  then show ?thesis
    unfolding nearest_def by (rule divide_right_mono) simp
qed

lemma nearest_nonneg: "0 \<le> x \<Longrightarrow> 0 \<le> nearest x"
proof -
  assume "0 \<le> x"
  then have "of_int 0 \<le> x * 2 ^ emin / 2 ^ shift x" by simp
  then have "0 \<le> rne (x * 2 ^ emin / 2 ^ shift x)" by (rule rne_ge_int)
  then show ?thesis by (simp add: nearest_def)
qed

lemma nearest_below_one:
  assumes "1 / 2 \<le> x" and "x < 1"
  shows "nearest x = of_int (rne (x * 2 ^ 53)) / 2 ^ 53"
proof -
  let ?j = "emin - 53"
  have e: "53 \<le> emin" by (simp add: emin_def)
  have pos: "0 \<le> x" using assms(1) by simp
  have split: "(2::real) ^ emin = 2 ^ 53 * 2 ^ ?j"
  proof -
    have "53 + ?j = emin" using e by simp
    then have "(2::real) ^ emin = 2 ^ (53 + ?j)" by simp
    then show ?thesis by (simp only: power_add)
  qed
  have lo: "(2::real) ^ (?j + 52) = 2 ^ emin / 2"
  proof -
    have "Suc (?j + 52) = emin" using e by simp
    then have "(2::real) ^ emin = 2 * 2 ^ (?j + 52)" by (metis power_Suc)
    then show ?thesis by (simp del: power_Suc)
  qed
  have hi: "(2::real) ^ (?j + 53) = 2 ^ emin"
    using e by simp
  have "shift x = ?j"
  proof (rule shift_eq)
    show "2 ^ (?j + 52) \<le> \<bar>x\<bar> * 2 ^ emin"
      unfolding lo using assms(1) pos by (simp add: field_simps)
    show "\<bar>x\<bar> * 2 ^ emin < 2 ^ (?j + 53)"
      unfolding hi using assms(2) pos by simp
  qed
  then have "nearest x = of_int (rne (x * 2 ^ emin / 2 ^ ?j) * 2 ^ ?j) / 2 ^ emin"
    by (simp add: nearest_def)
  also have "x * 2 ^ emin / 2 ^ ?j = x * 2 ^ 53"
    unfolding split by simp
  also have "of_int (rne (x * 2 ^ 53) * 2 ^ ?j) / (2::real) ^ emin = of_int (rne (x * 2 ^ 53)) / 2 ^ 53"
    unfolding split by simp
  finally show ?thesis .
qed

lemma to_double_finite:
  "- (2 ^ emax) < nearest x \<Longrightarrow> nearest x < 2 ^ emax \<Longrightarrow> to_double x = Fin (nearest x)"
  by (simp add: to_double_def Let_def)

lemma to_double_Fin: "to_double x = Fin y \<Longrightarrow> y = nearest x"
  by (simp add: to_double_def Let_def split: if_splits)

text \<open>The largest double below 1 is \<open>1 - 2 ^ - 53\<close>.\<close>

lemma double_below_one:
  assumes "is_double r" and "r < 1"
  shows "r \<le> 1 - 1 / 2 ^ 53"
proof (rule ccontr)
  assume "\<not> r \<le> 1 - 1 / 2 ^ 53"
  then have gt: "1 - 1 / 2 ^ 53 < r" by simp
  then have half: "1 / 2 \<le> r" by simp
  from assms(1) have "r = nearest r"
    unfolding is_double_def by (rule to_double_Fin)
  also have "\<dots> = of_int (rne (r * 2 ^ 53)) / 2 ^ 53"
    using half assms(2) by (rule nearest_below_one)
  finally have eq: "r * 2 ^ 53 = of_int (rne (r * 2 ^ 53))" by simp
  define m where "m = rne (r * 2 ^ 53)"
  have "r * 2 ^ 53 < 2 ^ 53" using assms(2) by simp
  then have "of_int m < (of_int (2 ^ 53) :: real)" using eq by (simp add: m_def)
  then have up: "m < 2 ^ 53" by (simp only: of_int_less_iff)
  have "2 ^ 53 - 1 < r * 2 ^ 53" using gt by (simp add: field_simps)
  then have "(of_int (2 ^ 53 - 1) :: real) < of_int m" using eq by (simp add: m_def)
  then have "2 ^ 53 - 1 < m" by (simp only: of_int_less_iff)
  with up show False by simp
qed

lemma nearest_exact:
  fixes e :: nat
  assumes "e \<le> 52" and "2 ^ e \<le> x" and "x < 2 ^ (e + 1)" and "x * 2 ^ (52 - e) = of_int m"
  shows "nearest x = x"
proof -
  have "nearest x = of_int (rne (x * 2 ^ (52 - e))) / 2 ^ (52 - e)"
    using assms(1-3) by (rule nearest_binade)
  also have "\<dots> = of_int m / 2 ^ (52 - e)"
    by (simp only: assms(4) rne_of_int)
  also have "\<dots> = x"
    using assms(4) [symmetric] by simp
  finally show ?thesis .
qed

lemma nearest_100000: "nearest 100000 = 100000"
  by (rule nearest_exact [where e = 16 and m = "100000 * 2 ^ 36"]) simp_all

lemma nearest_top: "nearest (1000000 - 1 / 2 ^ 33) = 1000000 - 1 / 2 ^ 33"
  by (rule nearest_exact [where e = 19 and m = "1000000 * 2 ^ 33 - 1"]) simp_all

lemma nearest_product_top:
  "nearest (900000 * (1 - 1 / 2 ^ 53)) = 900000 - 1 / 2 ^ 33"
proof -
  let ?x = "900000 * (1 - 1 / 2 ^ 53) :: real"
  have "nearest ?x = of_int (rne (?x * 2 ^ (52 - 19))) / 2 ^ (52 - 19)"
    by (rule nearest_binade) simp_all
  moreover have "rne (?x * 2 ^ (52 - 19)) = 900000 * 2 ^ 33 - 1"
    by (rule rne_eq) simp_all
  ultimately show ?thesis by simp
qed

text \<open>
  \<open>Math.floor(100000 + Math.random() * 900000)\<close> lies between 100000 and 999999 also after
  the two roundings: the largest double below 1 is far enough from 1 for the product to stay
  a double below 900000.
\<close>

lemma otp_number_range:
  assumes "0 \<le> r" and "r < 1" and "is_double r"
  shows "\<exists>n. js_floor (js_add 100000 (js_mul r 900000)) = Fin (of_int n) \<and>
             100000 \<le> n \<and> n \<le> 999999"
proof -
  have big: "(1000000::real) < 2 ^ emax" by (simp add: emax_def)
  have r: "r \<le> 1 - 1 / 2 ^ 53"
    using assms(3,2) by (rule double_below_one)
  define q where "q = nearest (r * 900000)"
  have p0: "0 \<le> r * 900000" using assms(1) by simp
  have p1: "r * 900000 \<le> 900000 * (1 - 1 / 2 ^ 53)" using r by simp
  have q0: "0 \<le> q" unfolding q_def using p0 by (rule nearest_nonneg)
  have "q \<le> nearest (900000 * (1 - 1 / 2 ^ 53))"
    unfolding q_def using p0 p1 by (rule nearest_mono)
  then have q1: "q \<le> 900000 - 1 / 2 ^ 33" by (simp only: nearest_product_top)
  have mul: "js_mul r 900000 = Fin q"
    unfolding js_mul_def q_def [symmetric]
    using q0 q1 big by (intro to_double_finite [of "r * 900000", folded q_def]) simp_all
  define t where "t = nearest (100000 + q)"
  have "nearest 100000 \<le> t"
    unfolding t_def using q0 by (intro nearest_mono) simp_all
  then have t0: "100000 \<le> t" by (simp only: nearest_100000)
  have "t \<le> nearest (1000000 - 1 / 2 ^ 33)"
    unfolding t_def using q0 q1 by (intro nearest_mono) simp_all
  then have t1: "t \<le> 1000000 - 1 / 2 ^ 33" by (simp only: nearest_top)
  have add: "to_double (100000 + q) = Fin t"
    using t0 t1 big by (intro to_double_finite [of "100000 + q", folded t_def]) simp_all
  have "js_floor (js_add 100000 (js_mul r 900000)) = Fin (of_int \<lfloor>t\<rfloor>)"
    by (simp add: mul add)
  moreover have "100000 \<le> \<lfloor>t\<rfloor>" using t0 by (simp add: le_floor_iff)
  moreover have "t < 1000000" using t1 by simp
  then have "\<lfloor>t\<rfloor> < 1000000" by (simp add: floor_less_iff)
  ultimately show ?thesis by (intro exI [of _ "\<lfloor>t\<rfloor>"]) simp
qed

lemma big_enough: "(1000000::real) < 2 ^ emax"
  by (simp add: emax_def)

lemma is_double_random_demo: "is_double random_demo"
proof -
  have "nearest random_demo = of_int (rne (random_demo * 2 ^ 53)) / 2 ^ 53"
    by (rule nearest_below_one) (simp_all add: random_demo_def)
  moreover have "rne (random_demo * 2 ^ 53) = 2251889885677795 * 2"
    by (rule rne_eq) (simp_all add: random_demo_def)
  ultimately have "nearest random_demo = random_demo"
    by (simp add: random_demo_def)
  then show ?thesis
    unfolding is_double_def using big_enough
    by (intro to_double_finite [of random_demo, simplified \<open>nearest random_demo = random_demo\<close>])
       (simp_all add: random_demo_def)
qed

lemma js_mul_random_demo: "js_mul random_demo 900000 = Fin (7731250370445311 / 2 ^ 34)"
proof -
  have "nearest (random_demo * 900000) = of_int (rne (random_demo * 900000 * 2 ^ (52 - 18))) / 2 ^ (52 - 18)"
    by (rule nearest_binade) (simp_all add: random_demo_def)
  moreover have "rne (random_demo * 900000 * 2 ^ (52 - 18)) = 7731250370445311"
    by (rule rne_eq) (simp_all add: random_demo_def)
  ultimately have n: "nearest (random_demo * 900000) = 7731250370445311 / 2 ^ 34"
    by simp
  show ?thesis
    unfolding js_mul_def using big_enough
    by (simp add: to_double_def Let_def n)
qed

lemma js_add_random_demo: "js_add 100000 (Fin (7731250370445311 / 2 ^ 34)) = Fin 550018"
proof -
  let ?s = "100000 + 7731250370445311 / 2 ^ 34 :: real"
  have "nearest ?s = of_int (rne (?s * 2 ^ (52 - 19))) / 2 ^ (52 - 19)"
    by (rule nearest_binade) simp_all
  moreover have "rne (?s * 2 ^ (52 - 19)) = 550018 * 2 ^ 33"
    by (simp add: rne_def Let_def)
  ultimately have n: "nearest ?s = 550018"
    by simp
  have "to_double ?s = Fin (nearest ?s)"
    unfolding n using big_enough by (intro to_double_finite [of ?s, unfolded n]) simp_all
  then show ?thesis
    by (simp only: js_add.simps n)
qed

lemma otp_number_random_demo:
  "js_floor (js_add 100000 (js_mul random_demo 900000)) = Fin 550018"
  by (simp only: js_mul_random_demo js_add_random_demo js_floor.simps) simp

lemma otp_number_random_near_36th:
  "js_floor (js_add 100000 (js_mul random_near_36th 900000)) = Fin 125000"
proof -
  let ?p = "random_near_36th * 900000"
  have "nearest ?p = of_int (rne (?p * 2 ^ (52 - 14))) / 2 ^ (52 - 14)"
    by (rule nearest_binade) (simp_all add: random_near_36th_def)
  moreover have "rne (?p * 2 ^ (52 - 14)) = 25000 * 2 ^ 38"
    by (rule rne_eq) (simp_all add: random_near_36th_def)
  ultimately have p: "nearest ?p = 25000"
    by simp
  have "to_double ?p = Fin (nearest ?p)"
    unfolding p using big_enough by (intro to_double_finite [of ?p, unfolded p]) simp_all
  then have mul: "js_mul random_near_36th 900000 = Fin 25000"
    by (simp only: js_mul_def p)
  have s: "nearest (100000 + 25000) = 100000 + 25000"
    by (rule nearest_exact [where e = 16 and m = "125000 * 2 ^ 36"]) simp_all
  have "to_double (100000 + 25000) = Fin (nearest (100000 + 25000))"
    unfolding s using big_enough by (intro to_double_finite [of "100000 + 25000", unfolded s]) simp_all
  then have "js_add 100000 (Fin 25000) = Fin (100000 + 25000)"
    by (simp only: js_add.simps s)
  then show ?thesis
    by (simp only: mul js_floor.simps) simp
qed

section \<open>One-time passwords\<close>

lemma digit_char_in: "d < 10 \<Longrightarrow> digit_char d \<in> set ''0123456789''"
  unfolding digit_char_def by (rule nth_mem) simp

lemma set_string_of_nat: "set (string_of_nat n) \<subseteq> set ''0123456789''"
proof (induction n rule: string_of_nat.induct)
  case (1 n)
  show ?case
  proof (cases "n < 10")
    case True
    then show ?thesis
      using digit_char_in [of n] by (subst string_of_nat.simps) simp
  next
    case False
    have "n mod 10 < 10" by simp
    then have "digit_char (n mod 10) \<in> set ''0123456789''" by (rule digit_char_in)
    with False 1 show ?thesis
      by (subst string_of_nat.simps) simp
  qed
qed

lemma length_string_of_nat:
  "10 ^ k \<le> n \<Longrightarrow> n < 10 ^ Suc k \<Longrightarrow> length (string_of_nat n) = Suc k"
proof (induction k arbitrary: n)
  case 0
  then show ?case by (subst string_of_nat.simps) simp
next
  case (Suc k)
  have "(10::nat) ^ Suc k = 10 * 10 ^ k" by simp
  moreover have "(1::nat) \<le> 10 ^ k" by simp
  ultimately have "(10::nat) \<le> 10 ^ Suc k" by linarith
  with Suc.prems have ge: "10 \<le> n" by linarith
  from Suc.prems have lo: "10 ^ k \<le> n div 10"
    by (simp add: less_eq_div_iff_mult_less_eq mult.commute)
  from Suc.prems have hi: "n div 10 < 10 ^ Suc k"
    by (simp add: div_less_iff_less_mult mult.commute)
  from ge have "length (string_of_nat n) = Suc (length (string_of_nat (n div 10)))"
    by (subst string_of_nat.simps) simp
  with Suc.IH [OF lo hi] show ?case by simp
qed

lemma six_digits:
  assumes "100000 \<le> i" "i \<le> 999999"
  shows "length (string_of_integer i) = 6 \<and> set (string_of_integer i) \<subseteq> set ''0123456789''"
proof -
  have "10 ^ 5 \<le> nat i" "nat i < 10 ^ Suc 5" using assms by simp_all
  then have "length (string_of_nat (nat i)) = Suc 5" by (rule length_string_of_nat)
  moreover have "string_of_integer i = string_of_nat (nat i)"
    using assms by (simp add: string_of_integer_def)
  ultimately show ?thesis using set_string_of_nat [of "nat i"] by simp
qed

lemma find_replaced:
  "f new = k \<Longrightarrow> find (\<lambda>x. f x = k) (filter (\<lambda>x. f x \<noteq> k) xs @ [new]) = Some new"
  by (induction xs) simp_all

lemma find_after_delete: "find (\<lambda>x. f x = k) (filter (\<lambda>x. f x \<noteq> k) xs) = None"
  by (simp add: find_None_iff)

lemma otp_issued_eq:
  "otp_issued =
   initial\<lparr>users := [\<lparr>u_id = 1, first_name = ''Mali'', last_name = ''Suk'',
                       u_phone = ''0811111111'', u_role = ''elderly''\<rparr>],
           users_seq := 1,
           settings := [\<lparr>s_user_id = 1, elderly_notify_exercise = 1,
                          elderly_notify_checkup = 1, family_notify_parent_done = 1\<rparr>],
           otps := [\<lparr>o_phone = ''0811111111'', o_code = ''550018'', expires_at = 300000\<rparr>]\<rparr>"
  by (simp add: otp_issued_def request_otp_def initial_def ensureSettings_def user_exists_def
      generateAndStoreOtp_def otp_number_random_demo string_of_integer_def string_of_nat.simps
      digit_char_def Let_def)

text \<open>
  C6: issuing a code for a phone, \<open>Math.random()\<close> having returned a double \<open>r\<close> with
  \<open>0 \<le> r < 1\<close> and the store succeeding. \<open>Math.floor(100000 + r * 900000)\<close>, computed in
  doubles as the program computes it, is a whole number between 100000 and 999999, and the
  code is its decimal string, of six digits; the table then holds exactly one row for the
  phone, with that code and the expiry \<open>now + 300000\<close> ms (five minutes), whatever rows the
  phone had before; the rows of other phones are untouched; and a verification with any
  other code is answered \<open>otp_invalid\<close>.
\<close>

theorem generateAndStoreOtp_six_digits_five_minutes:
  assumes "0 \<le> r" and "r < 1" and "is_double r" and "ReplaceOtp \<notin> F"
  shows "(\<exists>n. js_floor (js_add 100000 (js_mul r 900000)) = Fin (of_int n) \<and>
              100000 \<le> n \<and> n \<le> 999999 \<and>
              fst (generateAndStoreOtp st F now r phone) = string_of_integer n) \<and>
         length (fst (generateAndStoreOtp st F now r phone)) = 6 \<and>
         set (fst (generateAndStoreOtp st F now r phone)) \<subseteq> set ''0123456789'' \<and>
         filter (\<lambda>x. o_phone x = phone) (otps (snd (generateAndStoreOtp st F now r phone))) =
           [\<lparr>o_phone = phone, o_code = fst (generateAndStoreOtp st F now r phone),
             expires_at = now + 300000\<rparr>] \<and>
         find (\<lambda>x. o_phone x = phone) (otps (snd (generateAndStoreOtp st F now r phone))) =
           Some \<lparr>o_phone = phone, o_code = fst (generateAndStoreOtp st F now r phone),
                 expires_at = now + 300000\<rparr> \<and>
         filter (\<lambda>x. o_phone x \<noteq> phone) (otps (snd (generateAndStoreOtp st F now r phone))) =
           filter (\<lambda>x. o_phone x \<noteq> phone) (otps st) \<and>
         (\<forall>c sess G t.
            phone \<noteq> [] \<and> truthy c \<and> SelectOtp \<notin> G \<and>
            c \<noteq> JStr (fst (generateAndStoreOtp st F now r phone)) \<longrightarrow>
            fst (verify_otp (snd (generateAndStoreOtp st F now r phone)) sess G t phone c) =
              Error 400 ''otp_invalid'')"
proof -
  from otp_number_range [OF assms(1-3)]
  obtain n where n: "js_floor (js_add 100000 (js_mul r 900000)) = Fin (of_int n)"
    and range: "100000 \<le> n" "n \<le> 999999"
    by blast
  let ?code = "string_of_integer n"
  let ?new = "\<lparr>o_phone = phone, o_code = ?code, expires_at = now + 300000\<rparr>"
  have digits: "length ?code = 6 \<and> set ?code \<subseteq> set ''0123456789''"
    using range by (rule six_digits)
  have code: "fst (generateAndStoreOtp st F now r phone) = ?code"
    by (simp add: generateAndStoreOtp_def Let_def n)
  have rows: "otps (snd (generateAndStoreOtp st F now r phone)) =
      filter (\<lambda>x. o_phone x \<noteq> phone) (otps st) @ [?new]"
    using assms(4) by (simp add: generateAndStoreOtp_def Let_def n)
  have found: "find (\<lambda>x. o_phone x = phone) (otps (snd (generateAndStoreOtp st F now r phone))) =
      Some ?new"
    unfolding rows by (rule find_replaced) simp
  have others: "filter (\<lambda>x. o_phone x = phone) (filter (\<lambda>x. o_phone x \<noteq> phone) (otps st)) = []"
    by (simp add: filter_empty_conv)
  have invalid: "fst (verify_otp (snd (generateAndStoreOtp st F now r phone)) sess G t phone c) =
      Error 400 ''otp_invalid''"
    if "phone \<noteq> [] \<and> truthy c \<and> SelectOtp \<notin> G \<and> c \<noteq> JStr ?code"
    for c sess G t
    using that found by (auto simp: verify_otp_def)
  have first: "\<exists>m. js_floor (js_add 100000 (js_mul r 900000)) = Fin (of_int m) \<and>
              100000 \<le> m \<and> m \<le> 999999 \<and>
              fst (generateAndStoreOtp st F now r phone) = string_of_integer m"
    using n range code by blast
  show ?thesis
    using first digits others invalid by (simp add: code rows find_replaced)
qed

theorem generateAndStoreOtp_witness:
  "0 \<le> random_demo \<and> random_demo < 1 \<and> is_double random_demo \<and>
   js_floor (js_add 100000 (js_mul random_demo 900000)) = Fin 550018 \<and>
   generateAndStoreOtp otp_issued {} 60000 random_demo ''0811111111'' =
     (''550018'',
      otp_issued\<lparr>otps := [\<lparr>o_phone = ''0811111111'', o_code = ''550018'', expires_at = 360000\<rparr>]\<rparr>) \<and>
   length ''550018'' = 6"
proof -
  have r: "0 \<le> random_demo" "random_demo < 1"
    by (simp_all add: random_demo_def)
  have "''550018'' = string_of_integer 550018"
    by (simp add: string_of_integer_def string_of_nat.simps digit_char_def)
  then show ?thesis
    using generateAndStoreOtp_six_digits_five_minutes
      [OF r is_double_random_demo, of "{}" otp_issued 60000 "''0811111111''"]
      r is_double_random_demo
    by (simp add: otp_issued_eq initial_def generateAndStoreOtp_def otp_number_random_demo
        Let_def)
qed

text \<open>
  C2: the claim has the verification succeed exactly when the code matches and
  \<open>now < expiry\<close>. The handler refuses a code only when \<open>row.expires_at < now\<close>, so at
  \<open>now = expiry\<close> it still succeeds: the code issued at time 0, expiring at 300000, is
  accepted at 300000.
\<close>

theorem verify_otp_at_expiry_counterexample:
  "fst (verify_otp otp_issued None {} 300000 ''0811111111'' (JStr ''550018'')) =
     Json_ok_user mali \<and>
   find (\<lambda>x. o_phone x = ''0811111111'') (otps otp_issued) =
     Some \<lparr>o_phone = ''0811111111'', o_code = ''550018'', expires_at = 300000\<rparr> \<and>
   \<not> (300000 :: int) < 300000"
  by (simp add: otp_issued_eq verify_otp_def rowToUser_def initial_def mali_def)

text \<open>
  C2, amended: for a request that carries a phone and a code, the phone having a user row
  and no statement failing, the verification succeeds exactly when the phone has a stored
  code, the submitted code is the same string and \<open>now \<le> expiry\<close>. On success the response
  and the session carry that user, the phone's OTP rows are deleted, and a repeated
  verification with the same code, at any time and with any session, is answered
  \<open>otp_not_found\<close>.
\<close>

theorem verify_otp_succeeds_iff:
  assumes "phone \<noteq> []" and "truthy code"
    and "SelectOtp \<notin> F" and "SelectUserByPhone \<notin> F" and "DeleteOtp \<notin> F"
    and "find (\<lambda>u. u_phone u = phone) (users st) = Some urow"
  shows "((\<exists>u. fst (verify_otp st sess F now phone code) = Json_ok_user u) \<longleftrightarrow>
          (\<exists>row. find (\<lambda>x. o_phone x = phone) (otps st) = Some row \<and>
                 code = JStr (o_code row) \<and> now \<le> expires_at row)) \<and>
         (\<forall>u. fst (verify_otp st sess F now phone code) = Json_ok_user u \<longrightarrow>
              rowToUser (Some urow) = Some u \<and>
              fst (snd (verify_otp st sess F now phone code)) = Some u \<and>
              otps (snd (snd (verify_otp st sess F now phone code))) =
                filter (\<lambda>x. o_phone x \<noteq> phone) (otps st) \<and>
              (\<forall>sess' now'.
                 fst (verify_otp (snd (snd (verify_otp st sess F now phone code))) sess' F now'
                        phone code) =
                   Error 400 ''otp_not_found''))"
  using assms
  by (auto simp: verify_otp_def rowToUser_def find_after_delete split: option.splits)

theorem verify_otp_witness:
  "truthy (JStr ''550018'') \<and>
   find (\<lambda>u. u_phone u = ''0811111111'') (users otp_issued) =
     Some \<lparr>u_id = 1, first_name = ''Mali'', last_name = ''Suk'', u_phone = ''0811111111'',
           u_role = ''elderly''\<rparr> \<and>
   verify_otp otp_issued None {} 299999 ''0811111111'' (JStr ''550018'') =
     (Json_ok_user mali, Some mali, otp_issued\<lparr>otps := []\<rparr>) \<and>
   verify_otp (otp_issued\<lparr>otps := []\<rparr>) None {} 299999 ''0811111111'' (JStr ''550018'') =
     (Error 400 ''otp_not_found'', None, otp_issued\<lparr>otps := []\<rparr>)"
  using verify_otp_succeeds_iff
    [of "''0811111111''" "JStr ''550018''" "{}" otp_issued
        "\<lparr>u_id = 1, first_name = ''Mali'', last_name = ''Suk'', u_phone = ''0811111111'',
          u_role = ''elderly''\<rparr>" None 299999]
  by (simp add: otp_issued_eq initial_def verify_otp_def rowToUser_def mali_def)



section \<open>Fan-out through the relay\<close>

lemma emitToUser_eq:
  "emitToUser st uid ev p =
   st\<lparr>relayCalls := relayCalls st @ [(uid, ev, p)],
      sent := sent st @
        (case onlineUsers st uid of None \<Rightarrow> [] | Some t \<Rightarrow> [ToSocket (socketId t) ev p])\<rparr>"
  by (simp add: emitToUser_def split: option.split)

text \<open>
  A \<open>forEach\<close> over recipients that calls \<open>emitToUser\<close>: one call per recipient, in order, and
  one emission per recipient that has an entry in the registry.
\<close>

lemma foldl_emitToUser:
  "foldl (\<lambda>s rid. emitToUser s rid ev (P rid)) st rs =
   st\<lparr>relayCalls := relayCalls st @ map (\<lambda>rid. (rid, ev, P rid)) rs,
      sent := sent st @
        List.map_filter
          (\<lambda>rid. map_option (\<lambda>t. ToSocket (socketId t) ev (P rid)) (onlineUsers st rid)) rs\<rparr>"
proof (induction rs arbitrary: st)
  case Nil
  then show ?case by (simp add: map_filter_simps)
next
  case (Cons r rs)
  have "foldl (\<lambda>s rid. emitToUser s rid ev (P rid)) st (r # rs) =
        foldl (\<lambda>s rid. emitToUser s rid ev (P rid)) (emitToUser st r ev (P r)) rs"
    by simp
  also have "\<dots> = (emitToUser st r ev (P r))
      \<lparr>relayCalls := relayCalls (emitToUser st r ev (P r)) @ map (\<lambda>rid. (rid, ev, P rid)) rs,
       sent := sent (emitToUser st r ev (P r)) @
         List.map_filter
           (\<lambda>rid. map_option (\<lambda>t. ToSocket (socketId t) ev (P rid))
                    (onlineUsers (emitToUser st r ev (P r)) rid)) rs\<rparr>"
    by (rule Cons.IH)
  also have "\<dots> = st\<lparr>relayCalls := relayCalls st @ map (\<lambda>rid. (rid, ev, P rid)) (r # rs),
      sent := sent st @
        List.map_filter
          (\<lambda>rid. map_option (\<lambda>t. ToSocket (socketId t) ev (P rid)) (onlineUsers st rid))
          (r # rs)\<rparr>"
    by (simp add: emitToUser_eq map_filter_simps split: option.split)
  finally show ?case .
qed

section \<open>Exercise logs and the family notification\<close>

lemma set_contacts_of: "set (contacts_of st e) = {c \<in> set (contacts st). c_user_id c = e}"
  by (simp add: contacts_of_def)

lemma length_contacts_of:
  "length (contacts_of st e) = length (filter (\<lambda>c. c_user_id c = e) (contacts st))"
  by (simp add: contacts_of_def)

text \<open>With unique user identifiers the join yields at most one row per contact edge.\<close>

lemma join_on_unique_id:
  "distinct (map u_id us) \<Longrightarrow>
   [u_id u. u \<leftarrow> us, u_id u = k \<and> Q u] = (if \<exists>u\<in>set us. u_id u = k \<and> Q u then [k] else [])"
proof (induction us)
  case Nil
  then show ?case by simp
next
  case (Cons u us)
  then show ?case by (auto simp: image_iff)
qed

lemma family_contacts_filter:
  assumes "distinct (map u_id (users st))"
  shows "family_contacts st e =
         filter (\<lambda>f. \<exists>u\<in>set (users st). u_id u = f \<and> u_role u = ''family'')
           (map contact_user_id (contacts_of st e))"
proof -
  have "[u_id u. c \<leftarrow> cs, u \<leftarrow> users st, u_id u = contact_user_id c \<and> u_role u = ''family'']
        = filter (\<lambda>f. \<exists>u\<in>set (users st). u_id u = f \<and> u_role u = ''family'')
            (map contact_user_id cs)" for cs
    by (induction cs) (auto simp: join_on_unique_id [OF assms])
  then show ?thesis
    by (simp add: family_contacts_def)
qed

lemma distinct_contact_ids:
  assumes "distinct (map (\<lambda>c. (c_user_id c, contact_user_id c)) (contacts st))"
  shows "distinct (map contact_user_id (contacts_of st e))"
proof -
  let ?cs = "filter (\<lambda>c. c_user_id c = e) (contacts st)"
  from assms
  have "distinct (map (\<lambda>c. (c_user_id c, contact_user_id c)) ?cs)"
    by (rule distinct_map_filter)
  moreover have "map (\<lambda>c. (c_user_id c, contact_user_id c)) (filter (\<lambda>c. c_user_id c = e) cs)
                 = map (Pair e) (map contact_user_id (filter (\<lambda>c. c_user_id c = e) cs))" for cs
    by (induction cs) simp_all
  ultimately have "distinct (map contact_user_id ?cs)"
    by (auto simp: distinct_map inj_on_def)
  then show ?thesis
    by (simp add: contacts_of_def distinct_map)
qed

lemma family_contacts_distinct:
  assumes "distinct (map u_id (users st))"
    and "distinct (map (\<lambda>c. (c_user_id c, contact_user_id c)) (contacts st))"
  shows "distinct (family_contacts st e)"
  by (simp add: family_contacts_filter [OF assms(1)] distinct_contact_ids [OF assms(2)])

lemma set_family_contacts:
  "set (family_contacts st e) =
   {f. (e, f) \<in> set (map (\<lambda>c. (c_user_id c, contact_user_id c)) (contacts st)) \<and>
       f \<in> set (map u_id (filter (\<lambda>u. u_role u = ''family'') (users st)))}"
  by (force simp: family_contacts_def set_contacts_of image_iff)

lemma family_contacts_exercises_upd:
  "family_contacts (st\<lparr>exercises := xs, exercises_seq := n\<rparr>) e = family_contacts st e"
  by (simp add: family_contacts_def contacts_of_def cong: if_cong)

lemma notifyFamilyOfExercise_eq:
  "notifyFamilyOfExercise st F e et n fl =
   (if SelectFamilyContacts \<in> F then st
    else st\<lparr>relayCalls := relayCalls st @
               map (\<lambda>f. (f, ''exercise:completed'', ExerciseCompleted e et n fl))
                 (family_contacts st e),
            sent := sent st @
               List.map_filter
                 (\<lambda>f. map_option (\<lambda>t. ToSocket (socketId t) ''exercise:completed''
                                        (ExerciseCompleted e et n fl)) (onlineUsers st f))
                 (family_contacts st e)\<rparr>)"
  by (simp add: notifyFamilyOfExercise_def foldl_emitToUser)

text \<open>The handler on a request it accepts: the insert, then the fan-out if it is enabled.\<close>

lemma post_exercise_accepted:
  assumes "truthy exerciseType" and "InsertExercise \<notin> F" and "user_exists st (su_id user)"
  shows "post_exercise st (Some user) F today exerciseType (JNum d) fatigueLevel diff =
    (Json_ok_id (exercises_seq st + 1),
     let st1 = st\<lparr>exercises := exercises st @
                     [\<lparr>e_id = exercises_seq st + 1, e_user_id = su_id user, e_date = today,
                       exercise_type = exerciseType, duration_min = js_max (Fin 0) (js_floor d),
                       fatigue_level = or_null fatigueLevel, difficulty = or_null diff\<rparr>],
                   exercises_seq := exercises_seq st + 1\<rparr>
     in if su_role user = ''elderly'' \<and> SelectSettings \<notin> F \<and>
           (\<exists>sRow. find (\<lambda>s. s_user_id s = su_id user) (settings st) = Some sRow \<and>
                   family_notify_parent_done sRow = 1)
        then notifyFamilyOfExercise st1 F (su_id user) exerciseType (js_floor d)
               (or_null fatigueLevel)
        else st1)"
  using assms by (auto simp: post_exercise_def Let_def split: option.splits)

text \<open>
  C4: an elderly-role user logs an exercise, the request being accepted, no statement failing
  and the user having a settings row. If its \<open>family_notify_parent_done\<close> is 1, the calls of
  \<open>emitToUser\<close> the request makes are one \<open>exercise:completed\<close> call per element of
  \<open>family_contacts\<close>, each carrying the user, the exercise type, \<open>floor(duration)\<close> and
  \<open>fatigueLevel || null\<close>; with user identifiers and contact edges unique, as the schema has
  them, that list has no repetition and its elements are exactly the user's contacts whose
  role is family. If the flag is not 1, in particular if it is 0, no call and no emission are
  made.
\<close>

theorem exercise_fanout_one_push_per_family_contact:
  assumes "su_role user = ''elderly''"
    and "truthy exerciseType"
    and "InsertExercise \<notin> F" and "SelectSettings \<notin> F" and "SelectFamilyContacts \<notin> F"
    and "user_exists st (su_id user)"
    and "find (\<lambda>s. s_user_id s = su_id user) (settings st) = Some sRow"
    and "distinct (map u_id (users st))"
    and "distinct (map (\<lambda>c. (c_user_id c, contact_user_id c)) (contacts st))"
  shows "(family_notify_parent_done sRow = 1 \<longrightarrow>
            relayCalls (snd (post_exercise st (Some user) F today exerciseType (JNum d)
                               fatigueLevel diff)) =
              relayCalls st @
              map (\<lambda>f. (f, ''exercise:completed'',
                        ExerciseCompleted (su_id user) exerciseType (js_floor d)
                          (or_null fatigueLevel)))
                (family_contacts st (su_id user))) \<and>
         (family_notify_parent_done sRow \<noteq> 1 \<longrightarrow>
            relayCalls (snd (post_exercise st (Some user) F today exerciseType (JNum d)
                               fatigueLevel diff)) =
              relayCalls st \<and>
            sent (snd (post_exercise st (Some user) F today exerciseType (JNum d)
                         fatigueLevel diff)) =
              sent st) \<and>
         distinct (family_contacts st (su_id user)) \<and>
         set (family_contacts st (su_id user)) =
           {f. (su_id user, f) \<in> set (map (\<lambda>c. (c_user_id c, contact_user_id c)) (contacts st)) \<and>
               f \<in> set (map u_id (filter (\<lambda>u. u_role u = ''family'') (users st)))}"
proof -
  have "distinct (family_contacts st (su_id user))"
    using assms(8,9) by (rule family_contacts_distinct)
  then show ?thesis
    using assms(1-7)
    by (simp add: post_exercise_accepted notifyFamilyOfExercise_eq set_family_contacts
        family_contacts_exercises_upd Let_def)
qed

theorem exercise_fanout_witness:
  "su_role mali = ''elderly'' \<and> truthy (JStr ''walk'') \<and> user_exists family_demo (su_id mali) \<and>
   distinct (map u_id (users family_demo)) \<and>
   distinct (map (\<lambda>c. (c_user_id c, contact_user_id c)) (contacts family_demo)) \<and>
   family_contacts family_demo 1 = [2, 3] \<and>
   relayCalls (snd (post_exercise family_demo (Some mali) {} ''2026-11-03'' (JStr ''walk'')
                      (JNum (Fin 30)) (JNum (Fin 2)) JNull)) =
     [(2, ''exercise:completed'', ExerciseCompleted 1 (JStr ''walk'') (Fin 30) (JNum (Fin 2))),
      (3, ''exercise:completed'', ExerciseCompleted 1 (JStr ''walk'') (Fin 30) (JNum (Fin 2)))] \<and>
   relayCalls (snd (post_exercise
       (family_demo\<lparr>settings := [\<lparr>s_user_id = 1, elderly_notify_exercise = 1,
                                   elderly_notify_checkup = 1, family_notify_parent_done = 0\<rparr>]\<rparr>)
       (Some mali) {} ''2026-11-03'' (JStr ''walk'') (JNum (Fin 30)) (JNum (Fin 2)) JNull)) = []"
  using exercise_fanout_one_push_per_family_contact
    [of mali "JStr ''walk''" "{}" family_demo
        "\<lparr>s_user_id = 1, elderly_notify_exercise = 1, elderly_notify_checkup = 1,
          family_notify_parent_done = 1\<rparr>"
        "''2026-11-03''" "Fin 30" "JNum (Fin 2)" JNull]
  by (simp add: family_demo_def strangers_def initial_def mali_def user_exists_def
      family_contacts_def contacts_of_def post_exercise_def notifyFamilyOfExercise_def
      emitToUser_def or_null_def Let_def)

text \<open>
  C8: when the read of the settings row fails, by an error of the statement or because the
  user has no row, an accepted exercise log makes no call of \<open>emitToUser\<close> and no emission,
  and the response is still \<open>ok\<close> with the identifier of the row just inserted; the insert is
  the only change of the state.
\<close>

theorem exercise_settings_read_failure_is_silent:
  assumes "truthy exerciseType" and "InsertExercise \<notin> F" and "user_exists st (su_id user)"
    and "SelectSettings \<in> F \<or> find (\<lambda>s. s_user_id s = su_id user) (settings st) = None"
  shows "post_exercise st (Some user) F today exerciseType (JNum d) fatigueLevel diff =
           (Json_ok_id (exercises_seq st + 1),
            st\<lparr>exercises := exercises st @
                  [\<lparr>e_id = exercises_seq st + 1, e_user_id = su_id user, e_date = today,
                    exercise_type = exerciseType, duration_min = js_max (Fin 0) (js_floor d),
                    fatigue_level = or_null fatigueLevel, difficulty = or_null diff\<rparr>],
                exercises_seq := exercises_seq st + 1\<rparr>) \<and>
         relayCalls (snd (post_exercise st (Some user) F today exerciseType (JNum d)
                            fatigueLevel diff)) =
           relayCalls st \<and>
         sent (snd (post_exercise st (Some user) F today exerciseType (JNum d)
                      fatigueLevel diff)) =
           sent st"
  using assms by (auto simp: post_exercise_accepted Let_def)

theorem exercise_settings_read_failure_witness:
  "truthy (JStr ''walk'') \<and> user_exists family_demo (su_id mali) \<and>
   family_contacts family_demo (su_id mali) = [2, 3] \<and>
   post_exercise family_demo (Some mali) {SelectSettings} ''2026-11-03'' (JStr ''walk'')
       (JNum (Fin 30)) (JNum (Fin 2)) JNull =
     (Json_ok_id 1,
      family_demo\<lparr>exercises := [\<lparr>e_id = 1, e_user_id = 1, e_date = ''2026-11-03'',
                      exercise_type = JStr ''walk'', duration_min = Fin 30,
                      fatigue_level = JNum (Fin 2), difficulty = JNull\<rparr>],
                  exercises_seq := 1\<rparr>) \<and>
   post_exercise (family_demo\<lparr>settings := []\<rparr>) (Some mali) {} ''2026-11-03'' (JStr ''walk'')
       (JNum (Fin 30)) (JNum (Fin 2)) JNull =
     (Json_ok_id 1,
      family_demo\<lparr>exercises := [\<lparr>e_id = 1, e_user_id = 1, e_date = ''2026-11-03'',
                      exercise_type = JStr ''walk'', duration_min = Fin 30,
                      fatigue_level = JNum (Fin 2), difficulty = JNull\<rparr>],
                  exercises_seq := 1, settings := []\<rparr>)"
  using exercise_settings_read_failure_is_silent
    [of "JStr ''walk''" "{SelectSettings}" family_demo mali "''2026-11-03''" "Fin 30"
        "JNum (Fin 2)" JNull]
  by (simp add: family_demo_def strangers_def initial_def mali_def user_exists_def
      family_contacts_def contacts_of_def or_null_def post_exercise_def)




section \<open>Group messages\<close>

lemma length_filter_conj_le: "length (filter (\<lambda>c. P c \<and> Q c) cs) \<le> length (filter P cs)"
  by (induction cs) auto

lemma length_map_filter_dom:
  "length (List.map_filter (\<lambda>rid. map_option (g rid) (m rid)) (map f cs)) =
   length (filter (\<lambda>c. f c \<in> dom m) cs)"
  by (induction cs) (auto simp: map_filter_simps split: option.splits)

lemma length_map_filter_online:
  "length (List.map_filter (\<lambda>rid. map_option (g rid) (m rid))
             (map contact_user_id (contacts_of st uid))) =
   length (filter (\<lambda>c. c_user_id c = uid \<and> contact_user_id c \<in> dom m) (contacts st))"
proof -
  have "filter (\<lambda>c. contact_user_id c \<in> dom m) (contacts_of st uid) =
        sort_key contact_user_id
          (filter (\<lambda>c. c_user_id c = uid \<and> contact_user_id c \<in> dom m) (contacts st))"
    by (simp add: contacts_of_def filter_sort conj_commute)
  then show ?thesis
    by (simp add: length_map_filter_dom)
qed

lemma stmt_run_eq:
  "InsertMessage rid \<notin> F \<Longrightarrow> user_exists st s \<Longrightarrow> user_exists st rid \<Longrightarrow>
   stmt_run F s txt st rid =
   st\<lparr>messages := messages st @
        [\<lparr>m_id = messages_seq st + 1, from_user_id = s, to_user_id = rid, is_group = 1,
          content = txt\<rparr>],
      messages_seq := messages_seq st + 1\<rparr>"
  by (simp add: stmt_run_def insert_message_def)

text \<open>The batch of inserts, when none fails: one row per recipient, numbered in order.\<close>

lemma foldl_stmt_run:
  assumes "user_exists st s"
    and "\<forall>rid\<in>set rs. InsertMessage rid \<notin> F \<and> user_exists st rid"
  shows "foldl (stmt_run F s txt) st rs =
         st\<lparr>messages := messages st @
              map (\<lambda>(k, rid). \<lparr>m_id = messages_seq st + 1 + int k, from_user_id = s,
                                to_user_id = rid, is_group = 1, content = txt\<rparr>)
                (enumerate 0 rs),
            messages_seq := messages_seq st + int (length rs)\<rparr>"
  using assms
proof (induction rs arbitrary: st)
  case Nil
  then show ?case by simp
next
  case (Cons r rs)
  let ?st1 = "stmt_run F s txt st r"
  have st1: "?st1 = st\<lparr>messages := messages st @
        [\<lparr>m_id = messages_seq st + 1, from_user_id = s, to_user_id = r, is_group = 1,
          content = txt\<rparr>],
      messages_seq := messages_seq st + 1\<rparr>"
    using Cons.prems by (simp add: stmt_run_eq)
  have ex: "user_exists ?st1 s" "\<forall>rid\<in>set rs. InsertMessage rid \<notin> F \<and> user_exists ?st1 rid"
    using Cons.prems by (simp_all add: st1 user_exists_def)
  have "foldl (stmt_run F s txt) st (r # rs) = foldl (stmt_run F s txt) ?st1 rs"
    by simp
  also note Cons.IH [OF ex]
  finally show ?case
    by (simp add: st1 enumerate_Suc_eq case_prod_beta comp_def)
qed

lemma post_messages_group_eq:
  assumes "truthy txt" and "truthy isGroup"
    and "SelectContacts \<notin> F" and "\<forall>rid. InsertMessage rid \<notin> F"
    and "user_exists st (su_id user)"
    and "\<forall>c\<in>set (contacts st). user_exists st (contact_user_id c)"
  shows "post_messages st (Some user) F toUserId txt isGroup =
    (Json_ok,
     st\<lparr>messages := messages st @
          map (\<lambda>(k, rid). \<lparr>m_id = messages_seq st + 1 + int k, from_user_id = su_id user,
                            to_user_id = rid, is_group = 1, content = txt\<rparr>)
            (enumerate 0
               (map contact_user_id (contacts_of st (su_id user)))),
        messages_seq := messages_seq st +
          int (length (contacts_of st (su_id user))),
        relayCalls := relayCalls st @
          map (\<lambda>rid. (rid, ''message:new'', MessageNew None (su_id user) rid txt True))
            (map contact_user_id (contacts_of st (su_id user))),
        sent := sent st @
          List.map_filter
            (\<lambda>rid. map_option (\<lambda>t. ToSocket (socketId t) ''message:new''
                                     (MessageNew None (su_id user) rid txt True))
                     (onlineUsers st rid))
            (map contact_user_id (contacts_of st (su_id user)))\<rparr>)"
proof -
  let ?rs = "map contact_user_id (contacts_of st (su_id user))"
  have ok: "\<forall>rid\<in>set ?rs. InsertMessage rid \<notin> F \<and> user_exists st rid"
    using assms(4,6) by (auto simp: set_contacts_of)
  have "post_messages st (Some user) F toUserId txt isGroup =
        (Json_ok, foldl (\<lambda>s rid. emitToUser s rid ''message:new''
                           (MessageNew None (su_id user) rid txt True))
                    (foldl (stmt_run F (su_id user) txt) st ?rs) ?rs)"
    using assms(1-3) by (simp add: post_messages_def Let_def)
  then show ?thesis
    by (simp add: foldl_stmt_run [OF assms(5) ok] foldl_emitToUser)
qed

text \<open>
  C5: a group send by a sender with N contact edges, the request being accepted, no
  statement failing and the foreign keys of the contacts table holding. The response is
  \<open>ok\<close>; exactly N rows are appended to the messages table, one per contact in the order
  the SELECT lists them, each from the sender to that contact with \<open>is_group = 1\<close> and the
  content; \<open>emitToUser\<close> is called once per contact; and an emission is made for a contact
  exactly when the registry has an entry for it, to that entry's socket, so their number is
  the number of contacts present and at most N.
\<close>

theorem group_message_rows_and_pushes:
  assumes "truthy txt" and "truthy isGroup"
    and "SelectContacts \<notin> F" and "\<forall>rid. InsertMessage rid \<notin> F"
    and "user_exists st (su_id user)"
    and "\<forall>c\<in>set (contacts st). user_exists st (contact_user_id c)"
  shows "fst (post_messages st (Some user) F toUserId txt isGroup) = Json_ok \<and>
         messages (snd (post_messages st (Some user) F toUserId txt isGroup)) =
           messages st @
           map (\<lambda>(k, rid). \<lparr>m_id = messages_seq st + 1 + int k, from_user_id = su_id user,
                             to_user_id = rid, is_group = 1, content = txt\<rparr>)
             (enumerate 0
                (map contact_user_id (contacts_of st (su_id user)))) \<and>
         length (messages (snd (post_messages st (Some user) F toUserId txt isGroup))) =
           length (messages st) + length (filter (\<lambda>c. c_user_id c = su_id user) (contacts st)) \<and>
         relayCalls (snd (post_messages st (Some user) F toUserId txt isGroup)) =
           relayCalls st @
           map (\<lambda>rid. (rid, ''message:new'', MessageNew None (su_id user) rid txt True))
             (map contact_user_id (contacts_of st (su_id user))) \<and>
         sent (snd (post_messages st (Some user) F toUserId txt isGroup)) =
           sent st @
           List.map_filter
             (\<lambda>rid. map_option (\<lambda>t. ToSocket (socketId t) ''message:new''
                                      (MessageNew None (su_id user) rid txt True))
                      (onlineUsers st rid))
             (map contact_user_id (contacts_of st (su_id user))) \<and>
         length (sent (snd (post_messages st (Some user) F toUserId txt isGroup))) =
           length (sent st) +
           length (filter (\<lambda>c. c_user_id c = su_id user \<and> contact_user_id c \<in> dom (onlineUsers st))
                     (contacts st)) \<and>
         length (sent (snd (post_messages st (Some user) F toUserId txt isGroup))) \<le>
           length (sent st) + length (filter (\<lambda>c. c_user_id c = su_id user) (contacts st))"
proof -
  have "length (filter (\<lambda>c. c_user_id c = su_id user \<and> contact_user_id c \<in> dom (onlineUsers st))
                 (contacts st))
        \<le> length (filter (\<lambda>c. c_user_id c = su_id user) (contacts st))"
    by (rule length_filter_conj_le)
  then show ?thesis
    by (simp add: post_messages_group_eq [OF assms] length_map_filter_online length_contacts_of)
qed

theorem group_message_witness:
  "truthy (JStr ''hello'') \<and> truthy (JBool True) \<and> user_exists family_demo (su_id mali) \<and>
   length (filter (\<lambda>c. c_user_id c = su_id mali) (contacts family_demo)) = 3 \<and>
   messages (snd (post_messages family_demo (Some mali) {} None (JStr ''hello'') (JBool True))) =
     [\<lparr>m_id = 1, from_user_id = 1, to_user_id = 2, is_group = 1, content = JStr ''hello''\<rparr>,
      \<lparr>m_id = 2, from_user_id = 1, to_user_id = 3, is_group = 1, content = JStr ''hello''\<rparr>,
      \<lparr>m_id = 3, from_user_id = 1, to_user_id = 4, is_group = 1, content = JStr ''hello''\<rparr>] \<and>
   relayCalls (snd (post_messages family_demo (Some mali) {} None (JStr ''hello'') (JBool True))) =
     [(2, ''message:new'', MessageNew None 1 2 (JStr ''hello'') True),
      (3, ''message:new'', MessageNew None 1 3 (JStr ''hello'') True),
      (4, ''message:new'', MessageNew None 1 4 (JStr ''hello'') True)] \<and>
   sent (snd (post_messages family_demo (Some mali) {} None (JStr ''hello'') (JBool True))) =
     [ToSocket ''B'' ''message:new'' (MessageNew None 1 2 (JStr ''hello'') True)]"
  using group_message_rows_and_pushes
    [of "JStr ''hello''" "JBool True" "{}" family_demo mali None]
  by (simp add: family_demo_def strangers_def initial_def mali_def user_exists_def
      post_messages_def contacts_of_def stmt_run_def insert_message_def emitToUser_def Let_def)

section \<open>Contacts\<close>

text \<open>
  C10: for a session user and a phone that belongs to another existing user, no statement
  failing: the request is answered \<open>ok\<close>, after it both directed edges are in the contacts
  table, and repeating the request is answered \<open>ok\<close> again and leaves the rows of the
  contacts table, and all of the state but the table's AUTOINCREMENT counter, as the first
  request left them; the two skipped inserts advance that counter by 2.
\<close>

theorem contacts_add_idempotent:
  assumes "phone \<noteq> []"
    and "SelectUserByPhone \<notin> F"
    and "InsertContact (su_id user) (u_id row) \<notin> F" and "InsertContact (u_id row) (su_id user) \<notin> F"
    and "InsertSettings (su_id user) \<notin> F" and "InsertSettings (u_id row) \<notin> F"
    and "user_exists st (su_id user)"
    and "find (\<lambda>u. u_phone u = phone) (users st) = Some row"
    and "u_id row \<noteq> su_id user"
  shows "fst (contacts_add st (Some user) F phone) = Json_ok \<and>
         (su_id user, u_id row) \<in>
           set (map (\<lambda>c. (c_user_id c, contact_user_id c))
                 (contacts (snd (contacts_add st (Some user) F phone)))) \<and>
         (u_id row, su_id user) \<in>
           set (map (\<lambda>c. (c_user_id c, contact_user_id c))
                 (contacts (snd (contacts_add st (Some user) F phone)))) \<and>
         contacts_add (snd (contacts_add st (Some user) F phone)) (Some user) F phone =
           (Json_ok,
            (snd (contacts_add st (Some user) F phone))
              \<lparr>contacts_seq := contacts_seq (snd (contacts_add st (Some user) F phone)) + 2\<rparr>) \<and>
         contacts (snd (contacts_add (snd (contacts_add st (Some user) F phone)) (Some user) F
                          phone)) =
           contacts (snd (contacts_add st (Some user) F phone))"
proof -
  from assms(8) have "row \<in> set (users st)"
    by (auto simp: find_Some_iff in_set_conv_nth)
  then have other: "user_exists st (u_id row)"
    by (simp add: user_exists_def)
  show ?thesis
    using assms other
    by (auto simp: contacts_add_def ensureSettings_def insert_or_ignore_contact_def
        user_exists_def Let_def)
qed

theorem contacts_add_witness:
  "user_exists strangers (su_id mali) \<and>
   find (\<lambda>u. u_phone u = ''0822222222'') (users strangers) =
     Some \<lparr>u_id = 2, first_name = ''Nok'', last_name = ''Suk'', u_phone = ''0822222222'',
           u_role = ''family''\<rparr> \<and>
   contacts_add strangers (Some mali) {} ''0822222222'' =
     (Json_ok,
      strangers\<lparr>contacts := [\<lparr>c_id = 1, c_user_id = 1, contact_user_id = 2\<rparr>,
                              \<lparr>c_id = 2, c_user_id = 2, contact_user_id = 1\<rparr>],
                contacts_seq := 2\<rparr>) \<and>
   contacts_add
       (strangers\<lparr>contacts := [\<lparr>c_id = 1, c_user_id = 1, contact_user_id = 2\<rparr>,
                                \<lparr>c_id = 2, c_user_id = 2, contact_user_id = 1\<rparr>],
                  contacts_seq := 2\<rparr>)
       (Some mali) {} ''0822222222'' =
     (Json_ok,
      strangers\<lparr>contacts := [\<lparr>c_id = 1, c_user_id = 1, contact_user_id = 2\<rparr>,
                              \<lparr>c_id = 2, c_user_id = 2, contact_user_id = 1\<rparr>],
                contacts_seq := 4\<rparr>)"
  using contacts_add_idempotent
    [of "''0822222222''" "{}" mali
        "\<lparr>u_id = 2, first_name = ''Nok'', last_name = ''Suk'', u_phone = ''0822222222'',
          u_role = ''family''\<rparr>" strangers]
  by (simp add: strangers_def initial_def mali_def user_exists_def contacts_add_def
      ensureSettings_def insert_or_ignore_contact_def Let_def)

section \<open>The handlers keep the schema's constraints\<close>

text \<open>
  The uniqueness and foreign-key hypotheses of the theorems above are invariants: they hold at
  start-up and every handler and socket event keeps them.
\<close>

lemma schema_ok_initial: "schema_ok initial"
  by (simp add: schema_ok_def initial_def)

lemma schema_ok_ensureSettings: "schema_ok st \<Longrightarrow> schema_ok (ensureSettings st F uid)"
  by (simp add: schema_ok_def ensureSettings_def user_exists_def)

lemma distinct_replace:
  "distinct (map f xs) \<Longrightarrow> f new = k \<Longrightarrow> distinct (map f (filter (\<lambda>x. f x \<noteq> k) xs @ [new]))"
  by (auto simp: distinct_map_filter)

lemma schema_ok_generateAndStoreOtp:
  assumes "schema_ok st" and "phone \<in> set (map u_phone (users st))"
  shows "schema_ok (snd (generateAndStoreOtp st F now r phone))"
proof (cases "ReplaceOtp \<in> F")
  case True
  with assms show ?thesis by (simp add: generateAndStoreOtp_def Let_def)
next
  case False
  let ?new = "\<lparr>o_phone = phone,
                o_code = js_to_string (js_floor (js_add 100000 (js_mul r 900000))),
                expires_at = now + 1000 * 60 * 5\<rparr>"
  have st': "snd (generateAndStoreOtp st F now r phone) =
      st\<lparr>otps := filter (\<lambda>x. o_phone x \<noteq> phone) (otps st) @ [?new]\<rparr>"
    using False by (simp add: generateAndStoreOtp_def Let_def)
  have d: "distinct (map o_phone (filter (\<lambda>x. o_phone x \<noteq> phone) (otps st) @ [?new]))"
    using assms(1) by (intro distinct_replace) (simp_all add: schema_ok_def)
  have s: "set (map o_phone (filter (\<lambda>x. o_phone x \<noteq> phone) (otps st) @ [?new]))
           \<subseteq> set (map u_phone (users st))"
    using assms by (auto simp: schema_ok_def)
  show ?thesis
    unfolding st' using assms(1) d s by (simp add: schema_ok_def user_exists_def)
qed

lemma schema_ok_new_user:
  assumes ok: "schema_ok st" and new: "phone \<notin> set (map u_phone (users st))"
  shows "schema_ok (st\<lparr>users := users st @
                        [\<lparr>u_id = users_seq st + 1, first_name = fName, last_name = lName,
                          u_phone = phone, u_role = rl\<rparr>],
                      users_seq := users_seq st + 1\<rparr>)"
proof -
  have fresh: "users_seq st + 1 \<notin> set (map u_id (users st))"
    using ok by (fastforce simp: schema_ok_def)
  have bound: "\<forall>u\<in>set (users st). u_id u \<le> users_seq st + 1"
    using ok by (fastforce simp: schema_ok_def)
  have fk: "\<forall>c\<in>set (contacts st). user_exists st (c_user_id c) \<and> user_exists st (contact_user_id c)"
    using ok by (simp add: schema_ok_def)
  have sub: "set (map o_phone (otps st)) \<subseteq> set (map u_phone (users st))"
    using ok by (simp add: schema_ok_def)
  show ?thesis
    using ok new fresh bound fk sub
    by (simp add: schema_ok_def user_exists_def) blast
qed

lemma schema_ok_update_user:
  assumes ok: "schema_ok st"
  shows "schema_ok (st\<lparr>users := map (\<lambda>u. if u_id u = k
                                         then u\<lparr>first_name := fName, last_name := lName, u_role := rl\<rparr>
                                         else u) (users st)\<rparr>)"
proof -
  let ?upd = "\<lambda>u. if u_id u = k then u\<lparr>first_name := fName, last_name := lName, u_role := rl\<rparr> else u"
  have ids: "map u_id (map ?upd us) = map u_id us" for us
    by (induction us) simp_all
  have phones: "map u_phone (map ?upd us) = map u_phone us" for us
    by (induction us) simp_all
  have seq: "(\<forall>u\<in>set (map ?upd us). u_id u \<le> n) = (\<forall>u\<in>set us. u_id u \<le> n)" for us n
    by (induction us) simp_all
  show ?thesis
    using ok ids [of "users st"] phones [of "users st"] seq [of "users st" "users_seq st"]
    by (simp add: schema_ok_def user_exists_def del: map_map set_map)
qed

lemma find_phone_None: "find (\<lambda>u. u_phone u = phone) us = None \<Longrightarrow> phone \<notin> set (map u_phone us)"
  by (auto simp: find_None_iff)

lemma find_phone_Some: "find (\<lambda>u. u_phone u = phone) us = Some row \<Longrightarrow> phone \<in> set (map u_phone us)"
  by (induction us) (auto split: if_splits)

lemma users_ensureSettings: "users (ensureSettings st F uid) = users st"
  by (simp add: ensureSettings_def)

lemma schema_ok_request_otp:
  assumes "schema_ok st"
  shows "schema_ok (snd (request_otp st F production now r fName lName phone role))"
proof (cases "fName = [] \<or> lName = [] \<or> phone = [] \<or> SelectUserByPhone \<in> F")
  case True
  with assms show ?thesis by (auto simp: request_otp_def Let_def)
next
  case valid: False
  let ?rl = "if role = JStr ''elderly'' then ''elderly''
             else if role = JStr ''family'' then ''family'' else ''elderly''"
  show ?thesis
  proof (cases "find (\<lambda>u. u_phone u = phone) (users st)")
    case None
    let ?st1 = "st\<lparr>users := users st @
                     [\<lparr>u_id = users_seq st + 1, first_name = fName, last_name = lName,
                       u_phone = phone, u_role = ?rl\<rparr>],
                   users_seq := users_seq st + 1\<rparr>"
    have "schema_ok ?st1"
      using assms find_phone_None [OF None] by (rule schema_ok_new_user)
    then have "schema_ok (ensureSettings ?st1 F (users_seq st + 1))"
      by (rule schema_ok_ensureSettings)
    moreover have "phone \<in> set (map u_phone (users (ensureSettings ?st1 F (users_seq st + 1))))"
      by (simp add: users_ensureSettings)
    ultimately have "schema_ok (snd (generateAndStoreOtp (ensureSettings ?st1 F (users_seq st + 1))
                                       F now r phone))"
      by (rule schema_ok_generateAndStoreOtp)
    then show ?thesis
      using None valid assms by (simp add: request_otp_def Let_def split_beta)
  next
    case (Some row)
    let ?st1 = "st\<lparr>users := map (\<lambda>u. if u_id u = u_id row
                                       then u\<lparr>first_name := fName, last_name := lName, u_role := ?rl\<rparr>
                                       else u) (users st)\<rparr>"
    have ok1: "schema_ok ?st1"
      using assms by (rule schema_ok_update_user)
    have "map u_phone (users ?st1) = map u_phone (users st)"
      by (induction "users st") (simp_all add: comp_def)
    then have "phone \<in> set (map u_phone (users ?st1))"
      using find_phone_Some [OF Some] by (simp del: map_map set_map)
    then have "phone \<in> set (map u_phone (users (ensureSettings ?st1 F (u_id row))))"
      by (simp only: users_ensureSettings)
    moreover have "schema_ok (ensureSettings ?st1 F (u_id row))"
      using ok1 by (rule schema_ok_ensureSettings)
    ultimately have "schema_ok (snd (generateAndStoreOtp (ensureSettings ?st1 F (u_id row)) F now r phone))"
      by (rule schema_ok_generateAndStoreOtp [rotated])
    then show ?thesis
      using Some valid assms by (simp add: request_otp_def Let_def split_beta)
  qed
qed

lemma schema_ok_verify_otp:
  assumes "schema_ok st"
  shows "schema_ok (snd (snd (verify_otp st sess F now phone code)))"
proof -
  have del: "schema_ok (st\<lparr>otps := filter (\<lambda>x. o_phone x \<noteq> phone) (otps st)\<rparr>)"
    using assms by (auto simp: schema_ok_def user_exists_def distinct_map_filter)
  show ?thesis
    using assms del
    by (simp add: verify_otp_def split: option.split)
qed

lemma schema_ok_insert_or_ignore_contact:
  assumes "schema_ok st" and "insert_or_ignore_contact st F a b = Some st'"
  shows "schema_ok st'"
proof (cases "(a, b) \<in> set (map (\<lambda>c. (c_user_id c, contact_user_id c)) (contacts st))")
  case True
  with assms(2) have "st' = st\<lparr>contacts_seq := contacts_seq st + 1\<rparr>"
    by (simp add: insert_or_ignore_contact_def split: if_splits)
  with assms(1) show ?thesis
    by (simp add: schema_ok_def user_exists_def)
next
  case False
  with assms(2) have st': "st' = st\<lparr>contacts := contacts st @
        [\<lparr>c_id = contacts_seq st + 1, c_user_id = a, contact_user_id = b\<rparr>],
      contacts_seq := contacts_seq st + 1\<rparr>"
    and ex: "user_exists st a" "user_exists st b"
    by (simp_all add: insert_or_ignore_contact_def split: if_splits)
  show ?thesis
    unfolding st' using assms(1) False ex
    by (simp add: schema_ok_def user_exists_def)
qed

lemma schema_ok_contacts_add:
  assumes "schema_ok st"
  shows "schema_ok (snd (contacts_add st sess F phone))"
proof -
  have step: "schema_ok (snd (case insert_or_ignore_contact s F a b of
                        None \<Rightarrow> (Error 500 ''db_error'', s)
                      | Some s3 \<Rightarrow>
                          (case insert_or_ignore_contact s3 F b a of
                             None \<Rightarrow> (Error 500 ''db_error'', s3)
                           | Some s4 \<Rightarrow> (Json_ok, s4))))" if s: "schema_ok s" for s a b
  proof (cases "insert_or_ignore_contact s F a b")
    case None
    with s show ?thesis by simp
  next
    case (Some s3)
    with s have s3: "schema_ok s3" by (rule schema_ok_insert_or_ignore_contact)
    show ?thesis
    proof (cases "insert_or_ignore_contact s3 F b a")
      case None
      with Some s3 show ?thesis by simp
    next
      case inner: (Some s4)
      with s3 have "schema_ok s4" by (rule schema_ok_insert_or_ignore_contact)
      with Some inner show ?thesis by simp
    qed
  qed
  have both: "schema_ok (ensureSettings (ensureSettings st F a) F b)" for a b
    by (intro schema_ok_ensureSettings assms)
  show ?thesis
    using assms step [OF both]
    by (simp add: contacts_add_def Let_def split: option.split)
qed

lemma schema_ok_emitToUser: "schema_ok st \<Longrightarrow> schema_ok (emitToUser st uid ev p)"
  by (simp add: emitToUser_eq schema_ok_def user_exists_def)

lemma schema_ok_on_connection: "schema_ok st \<Longrightarrow> schema_ok (on_connection st s)"
  by (simp add: on_connection_def schema_ok_def user_exists_def)

lemma schema_ok_on_disconnect: "schema_ok st \<Longrightarrow> schema_ok (on_disconnect st s)"
  by (simp add: on_disconnect_def schema_ok_def user_exists_def)

lemma schema_ok_foldl:
  assumes "\<And>s x. schema_ok s \<Longrightarrow> schema_ok (f s x)" and "schema_ok st"
  shows "schema_ok (foldl f st xs)"
  using assms(2) by (induction xs arbitrary: st) (simp_all add: assms(1))

lemma schema_ok_stmt_run: "schema_ok st \<Longrightarrow> schema_ok (stmt_run F s txt st rid)"
  by (simp add: stmt_run_def insert_message_def schema_ok_def user_exists_def)

lemma schema_ok_post_messages:
  assumes "schema_ok st"
  shows "schema_ok (snd (post_messages st sess F toUserId txt isGroup))"
proof -
  have grp: "schema_ok (foldl (\<lambda>s rid. emitToUser s rid ev (P rid))
                          (foldl (stmt_run F a txt) st rs) rs)" for ev P a rs
    by (intro schema_ok_foldl schema_ok_emitToUser schema_ok_stmt_run assms)
  have direct: "schema_ok (emitToUser s1 t ev p)"
    if "insert_message st F a t 0 txt = Some s1" for a t s1 ev p
  proof -
    from that have "s1 = st\<lparr>messages := messages st @
          [\<lparr>m_id = messages_seq st + 1, from_user_id = a, to_user_id = t, is_group = 0,
            content = txt\<rparr>],
        messages_seq := messages_seq st + 1\<rparr>"
      by (simp add: insert_message_def split: if_splits)
    with assms have "schema_ok s1"
      by (simp add: schema_ok_def user_exists_def)
    then show ?thesis by (rule schema_ok_emitToUser)
  qed
  show ?thesis
    using assms grp direct
    by (simp add: post_messages_def Let_def split: option.split)
qed

lemma schema_ok_post_exercise:
  assumes "schema_ok st"
  shows "schema_ok (snd (post_exercise st sess F today exerciseType duration fatigueLevel diff))"
proof -
  have ins: "schema_ok (st\<lparr>exercises := xs, exercises_seq := n\<rparr>)" for xs n
    using assms by (simp add: schema_ok_def user_exists_def)
  have fan: "schema_ok (notifyFamilyOfExercise (st\<lparr>exercises := xs, exercises_seq := n\<rparr>) F e et k fl)"
    for xs n e et k fl
    unfolding notifyFamilyOfExercise_def
    by (simp add: schema_ok_foldl schema_ok_emitToUser ins)
  show ?thesis
    using assms ins fan
    by (simp add: post_exercise_def Let_def split: option.split jsval.split)
qed

lemma schema_ok_otp_issued: "schema_ok otp_issued"
  unfolding otp_issued_def by (rule schema_ok_request_otp [OF schema_ok_initial])

lemma schema_ok_family_demo: "schema_ok family_demo"
  by (simp add: schema_ok_def family_demo_def strangers_def initial_def user_exists_def)

end
